theory Spec2Isabelle
  imports Complex_Main "HOL-Library.Multiset"
begin

section \<open>SkillMatcher: strings\<close>

text \<open>
  JavaScript strings are sequences of code units.  A \<^typ>\<open>string\<close> here is a list of
  8-bit characters read as the code units U+0000 .. U+00FF (Latin-1), on which
  \<^verbatim>\<open>toLowerCase\<close>, \<^verbatim>\<open>trim\<close> and the regular-expression class \<^verbatim>\<open>\s\<close> are
  written out exactly.
\<close>

definition code :: "char \<Rightarrow> nat" where
  "code c = of_char c"

text \<open>The class \<^verbatim>\<open>\s\<close> (and what \<^verbatim>\<open>trim\<close> removes): TAB, LF, VT, FF, CR, SPACE, NBSP.\<close>

definition isSpace :: "char \<Rightarrow> bool" where
  "isSpace c = ((9 \<le> code c \<and> code c \<le> 13) \<or> code c = 32 \<or> code c = 160)"

definition lowerChar :: "char \<Rightarrow> char" where
  "lowerChar c =
     (if (65 \<le> code c \<and> code c \<le> 90) \<or> (192 \<le> code c \<and> code c \<le> 222 \<and> code c \<noteq> 215)
      then char_of (code c + 32) else c)"

definition toLowerCase :: "string \<Rightarrow> string" where
  "toLowerCase s = map lowerChar s"

definition trimStart :: "string \<Rightarrow> string" where
  "trimStart s = dropWhile isSpace s"

definition trimEnd :: "string \<Rightarrow> string" where
  "trimEnd s = rev (dropWhile isSpace (rev s))"

definition trim :: "string \<Rightarrow> string" where
  "trim s = trimEnd (trimStart s)"

text \<open>The characters that \<^verbatim>\<open>replace(/[^a-z0-9\s]/g, '')\<close> leaves in place.\<close>

definition kept :: "char \<Rightarrow> bool" where
  "kept c = ((97 \<le> code c \<and> code c \<le> 122) \<or> (48 \<le> code c \<and> code c \<le> 57) \<or> isSpace c)"

text \<open>ASCII letters of either case, digits and whitespace: what survives lowercasing and stripping.\<close>

definition plainChar :: "char \<Rightarrow> bool" where
  "plainChar c = (kept c \<or> (65 \<le> code c \<and> code c \<le> 90))"

text \<open>\<^verbatim>\<open>skill.toLowerCase().trim().replace(/[^a-z0-9\s]/g, '')\<close>\<close>

definition normalizeSkill :: "string \<Rightarrow> string" where
  "normalizeSkill skill = filter kept (trim (toLowerCase skill))"

text \<open>\<^verbatim>\<open>s.startsWith(t)\<close> and \<^verbatim>\<open>s.includes(t)\<close>: \<open>t\<close> occurs in \<open>s\<close> as a contiguous block.\<close>

definition startsWith :: "string \<Rightarrow> string \<Rightarrow> bool" where
  "startsWith s t = (take (length t) s = t)"

fun includesStr :: "string \<Rightarrow> string \<Rightarrow> bool" where
  "includesStr [] t = (t = [])"
| "includesStr (c # cs) t = (startsWith (c # cs) t \<or> includesStr cs t)"

text \<open>
  \<^verbatim>\<open>s.split(/\s+/)\<close>: the pieces between maximal runs of whitespace.  A string that
  starts (ends) with whitespace yields an empty first (last) piece; the empty string
  yields one empty piece.
\<close>

function splitFrom :: "string \<Rightarrow> string \<Rightarrow> string list" where
  "splitFrom cur [] = [rev cur]"
| "splitFrom cur (c # cs) =
     (if isSpace c then rev cur # splitFrom [] (dropWhile isSpace cs)
      else splitFrom (c # cur) cs)"
  by pat_completeness auto
termination
  by (relation "measure (\<lambda>(cur, s). length s)")
     (auto simp: length_dropWhile_le less_Suc_eq_le)

definition split_ws :: "string \<Rightarrow> string list" where
  "split_ws s = splitFrom [] s"

text \<open>\<^verbatim>\<open>skillsMatch\<close>: exact, partial (one contains the other), or word overlap.\<close>

definition wordsOverlap :: "string \<Rightarrow> string \<Rightarrow> bool" where
  "wordsOverlap w1 w2 = (w1 = w2 \<or> includesStr w1 w2 \<or> includesStr w2 w1)"

definition skillsMatch :: "string \<Rightarrow> string \<Rightarrow> bool" where
  "skillsMatch skill1 skill2 =
     (let norm1 = normalizeSkill skill1; norm2 = normalizeSkill skill2 in
      if norm1 = norm2 then True
      else if includesStr norm1 norm2 \<or> includesStr norm2 norm1 then True
      else (let words1 = split_ws norm1; words2 = split_ws norm2 in
            list_ex (\<lambda>w1. list_ex (\<lambda>w2. wordsOverlap w1 w2) words2) words1))"

section \<open>SkillMatcher: the score\<close>

text \<open>
  The score is \<^verbatim>\<open>Math.round((matchCount / learnerWants.length) * 100)\<close>, computed on
  IEEE 754 binary64 numbers: the quotient is rounded to the nearest double (ties to the
  even significand), the product with 100 is rounded again, and \<^verbatim>\<open>Math.round\<close> takes
  the nearest integer, ties upward.  Doubles are modelled as the rationals they denote.
  \<open>roundEven\<close> rounds a scaled significand to an integer; \<open>toDouble\<close> brings a
  positive rational into the range \<open>[2^52, 2^53)\<close> by powers of two, rounds it there and
  scales back.  The exponent is unbounded, which is exact as long as no overflow or
  subnormal occurs: array lengths are below \<open>2^32\<close>, so none does.  Only non-negative
  values occur.
\<close>

definition roundEven :: "rat \<Rightarrow> int" where
  "roundEven x =
     (let f = \<lfloor>x\<rfloor>; d = x - of_int f in
      if d < 1 / 2 then f
      else if 1 / 2 < d then f + 1
      else if even f then f else f + 1)"

function toDouble :: "rat \<Rightarrow> rat" where
  "toDouble x =
     (if x \<le> 0 then 0
      else if x < 2 ^ 52 then toDouble (2 * x) / 2
      else if 2 ^ 53 \<le> x then 2 * toDouble (x / 2)
      else of_int (roundEven x))"
  by pat_completeness auto
termination
proof -
  let ?m = "\<lambda>x::rat. if x \<le> 0 then 0
                 else if x < 2 ^ 52 then nat \<lceil>2 ^ 53 / x\<rceil>
                 else if 2 ^ 53 \<le> x then nat \<lceil>x\<rceil> else 0"
  have half: "nat \<lceil>y / 2\<rceil> < nat \<lceil>y\<rceil>" if "2 \<le> y" for y :: rat
  proof -
    have "y / 2 \<le> of_int \<lceil>y\<rceil> - 1"
      using that le_of_int_ceiling[of y] by linarith
    then have "\<lceil>y / 2\<rceil> < \<lceil>y\<rceil>"
      by (simp only: ceiling_less_iff)
    moreover have "0 < \<lceil>y\<rceil>"
      using that by (simp add: less_ceiling_iff)
    ultimately show ?thesis by linarith
  qed
  have pos: "0 < nat \<lceil>y\<rceil>" if "0 < y" for y :: rat
    using that by (simp add: less_ceiling_iff)
  show ?thesis
  proof (relation "measure ?m")
    show "wf (measure ?m)" by simp
  next
    fix x :: rat
    assume a: "\<not> x \<le> 0" "x < 2 ^ 52"
    define y where "y = 2 ^ 53 / x"
    have y: "2 \<le> y" "0 < y"
      using a by (simp_all add: y_def field_simps)
    have e: "2 ^ 53 / (2 * x) = y / 2"
      by (simp add: y_def)
    have "?m x = nat \<lceil>2 ^ 53 / x\<rceil>"
      using a by simp
    then have mx: "?m x = nat \<lceil>y\<rceil>"
      by (simp only: y_def)
    have "?m (2 * x) < nat \<lceil>y\<rceil>"
    proof (cases "2 * x < 2 ^ 52")
      case True
      then have "?m (2 * x) = nat \<lceil>2 ^ 53 / (2 * x)\<rceil>"
        using a by simp
      also have "\<dots> = nat \<lceil>y / 2\<rceil>"
        by (simp only: e)
      also have "\<dots> < nat \<lceil>y\<rceil>"
        by (rule half[OF y(1)])
      finally show ?thesis .
    next
      case False
      moreover have "\<not> (2 ^ 53 \<le> 2 * x)" using a by simp
      ultimately have "?m (2 * x) = 0" using a by simp
      then show ?thesis using pos[OF y(2)] by simp
    qed
    then show "(2 * x, x) \<in> measure ?m"
      unfolding in_measure mx .
  next
    fix x :: rat
    assume a: "\<not> x \<le> 0" "\<not> x < 2 ^ 52" "2 ^ 53 \<le> x"
    have x2: "2 \<le> x" "0 < x" using a by simp_all
    have mx: "?m x = nat \<lceil>x\<rceil>"
      using a by simp
    have "?m (x / 2) < nat \<lceil>x\<rceil>"
    proof (cases "2 ^ 53 \<le> x / 2")
      case True
      then have "?m (x / 2) = nat \<lceil>x / 2\<rceil>"
        using a by simp
      then show ?thesis using half[OF x2(1)] by simp
    next
      case False
      moreover have "\<not> (x / 2 < 2 ^ 52)" using a by simp
      ultimately have "?m (x / 2) = 0" using a by simp
      then show ?thesis using pos[OF x2(2)] by simp
    qed
    then show "(x / 2, x) \<in> measure ?m"
      unfolding in_measure mx .
  qed
qed

text \<open>\<^verbatim>\<open>Math.round\<close>: the nearest integer, a tie going to the larger one.\<close>

definition js_round :: "rat \<Rightarrow> int" where
  "js_round x = \<lfloor>x + 1 / 2\<rfloor>"

text \<open>\<^verbatim>\<open>a / b\<close> and \<^verbatim>\<open>a * b\<close> on doubles.\<close>

definition fdiv :: "rat \<Rightarrow> rat \<Rightarrow> rat" where
  "fdiv a b = toDouble (a / b)"

definition fmul :: "rat \<Rightarrow> rat \<Rightarrow> rat" where
  "fmul a b = toDouble (a * b)"

text \<open>
  The two loops of \<^verbatim>\<open>calculateLocalMatchScore\<close>.  The inner loop stops at the first
  entry of \<open>mentorHas\<close> that matches (\<^const>\<open>find\<close>); the outer loop pushes it and
  counts it.
\<close>

fun matchLoop :: "string list \<Rightarrow> string list \<Rightarrow> string list \<times> nat \<Rightarrow> string list \<times> nat" where
  "matchLoop [] mentorHas acc = acc"
| "matchLoop (wantedSkill # rest) mentorHas (matchedSkills, matchCount) =
     (case find (\<lambda>hasSkill. skillsMatch wantedSkill hasSkill) mentorHas of
        None \<Rightarrow> matchLoop rest mentorHas (matchedSkills, matchCount)
      | Some hasSkill \<Rightarrow> matchLoop rest mentorHas (matchedSkills @ [hasSkill], matchCount + 1))"

text \<open>\<^verbatim>\<open>[...new Set(xs)]\<close>: the first occurrence of every element, in insertion order.\<close>

fun setInsertAll :: "'a list \<Rightarrow> 'a list \<Rightarrow> 'a list" where
  "setInsertAll seen [] = seen"
| "setInsertAll seen (x # xs) = setInsertAll (if x \<in> set seen then seen else seen @ [x]) xs"

definition uniqueInOrder :: "'a list \<Rightarrow> 'a list" where
  "uniqueInOrder xs = setInsertAll [] xs"

definition calculateLocalMatchScore :: "string list \<Rightarrow> string list \<Rightarrow> int \<times> string list" where
  "calculateLocalMatchScore learnerWants mentorHas =
     (if learnerWants = [] \<or> mentorHas = [] then (0, [])
      else
        (let (matchedSkills, matchCount) = matchLoop learnerWants mentorHas ([], 0);
             score = js_round (fmul (fdiv (of_nat matchCount) (of_nat (length learnerWants))) 100)
         in (score, uniqueInOrder matchedSkills)))"


section \<open>Errors and collaborators\<close>

text \<open>
  The source throws \<^verbatim>\<open>Error\<close> objects told apart by their message; the error kinds
  below name them.  A rejected promise of a collaborator (the document store, the
  moderation service) is an \<open>Inl\<close> of the same type.
\<close>

datatype error =
    ValidationError
  | DuplicateRequestError
  | ContentRejected string
  | NotFoundError
  | PermissionDenied
  | TransientStoreError
  | ModerationUnavailable

text \<open>
  \<^verbatim>\<open>moderateContent(text, contextKind)\<close> lives in the AI service module; it is a
  parameter: it answers \<open>(safe, reason)\<close> or raises.
\<close>

type_synonym moderator = "string \<Rightarrow> string \<Rightarrow> error + (bool \<times> string)"

section \<open>MentorRanker\<close>

text \<open>
  A profile document.  Documents are schema-less and older ones carry the field names
  \<^verbatim>\<open>skillsOffered\<close> / \<^verbatim>\<open>skillsWanted\<close>; an absent field is \<open>None\<close>.  In
  \<^verbatim>\<open>a || b || []\<close> an array, even an empty one, is truthy.
\<close>

record profile =
  userId :: string
  skillsHave :: "string list option"
  skillsOffered :: "string list option"
  skillsToLearn :: "string list option"
  skillsWanted :: "string list option"
  bio :: string

text \<open>
  An entry of the result: the mentor's document with \<^verbatim>\<open>matchScore\<close> and
  \<^verbatim>\<open>matchedSkills\<close>.  The display sentence \<^verbatim>\<open>matchReason\<close> and the two renamed
  skill fields of the result object are presentation and are left out.
\<close>

record rankedMentor =
  mentor :: profile
  matchScore :: int
  matchedSkills :: "string list"

text \<open>\<^verbatim>\<open>searchQuery.split(/[,;]/)\<close>\<close>

fun splitDelims :: "string \<Rightarrow> string \<Rightarrow> string list" where
  "splitDelims cur [] = [rev cur]"
| "splitDelims cur (c # cs) =
     (if c = CHR '','' \<or> c = CHR '';'' then rev cur # splitDelims [] cs
      else splitDelims (c # cur) cs)"

definition parseQuery :: "string \<Rightarrow> string list" where
  "parseQuery searchQuery = filter (\<lambda>s. length s > 0) (map trim (splitDelims [] searchQuery))"

definition hasSkills :: "profile \<Rightarrow> bool" where
  "hasSkills p = (case skillsHave p of None \<Rightarrow> False | Some s \<Rightarrow> length s > 0)"

definition scoreMentor :: "string list \<Rightarrow> profile \<Rightarrow> rankedMentor" where
  "scoreMentor skillsToMatch m =
     (let mentorSkills =
            (case skillsHave m of Some s \<Rightarrow> s
             | None \<Rightarrow> (case skillsOffered m of Some s \<Rightarrow> s | None \<Rightarrow> []));
          (score, matched) = calculateLocalMatchScore skillsToMatch mentorSkills
      in \<lparr>mentor = m, matchScore = score, matchedSkills = matched\<rparr>)"

text \<open>The comparator handed to \<^verbatim>\<open>sort\<close>: negative puts \<open>a\<close> first.\<close>

definition compareMentors :: "rankedMentor \<Rightarrow> rankedMentor \<Rightarrow> int" where
  "compareMentors a b =
     (if matchScore b \<noteq> matchScore a then matchScore b - matchScore a
      else int (length (matchedSkills b)) - int (length (matchedSkills a)))"

text \<open>
  \<^verbatim>\<open>Array.prototype.sort(cmp)\<close> is stable: it orders by \<open>cmp\<close> and keeps elements
  that compare equal in their original order.  For a consistent comparator that result
  is unique; it is computed here by insertion from the right.
\<close>

fun insertSorted :: "('a \<Rightarrow> 'a \<Rightarrow> int) \<Rightarrow> 'a \<Rightarrow> 'a list \<Rightarrow> 'a list" where
  "insertSorted cmp x [] = [x]"
| "insertSorted cmp x (y # ys) =
     (if cmp x y \<le> 0 then x # y # ys else y # insertSorted cmp x ys)"

definition js_sort :: "('a \<Rightarrow> 'a \<Rightarrow> int) \<Rightarrow> 'a list \<Rightarrow> 'a list" where
  "js_sort cmp xs = foldr (insertSorted cmp) xs []"

text \<open>
  The skills a search matches against, as \<^verbatim>\<open>searchMentors\<close> determines them:
  \<^verbatim>\<open>searchSkills || currentProfile.skillsToLearn || currentProfile.skillsWanted || []\<close>,
  replaced by the parsed \<^verbatim>\<open>searchQuery\<close> when the query is non-blank and yields at
  least one skill.  An absent or empty \<^verbatim>\<open>searchQuery\<close> is the empty string, an absent
  \<^verbatim>\<open>searchSkills\<close> is \<open>None\<close>.
\<close>

definition skillsToMatchFor :: "profile \<Rightarrow> string \<Rightarrow> string list option \<Rightarrow> string list" where
  "skillsToMatchFor currentProfile searchQuery searchSkills =
     (let fromProfile =
            (case searchSkills of Some s \<Rightarrow> s
             | None \<Rightarrow> (case skillsToLearn currentProfile of Some s \<Rightarrow> s
                | None \<Rightarrow> (case skillsWanted currentProfile of Some s \<Rightarrow> s | None \<Rightarrow> [])))
      in if length (trim searchQuery) > 0 \<and> length (parseQuery searchQuery) > 0
         then parseQuery searchQuery else fromProfile)"

text \<open>
  The body of the \<^verbatim>\<open>try\<close> block of \<^verbatim>\<open>searchMentors\<close>.  \<open>getProfile\<close> is the store's
  answer to reading one profile document (\<open>None\<close>: no such document), \<open>getDocs\<close> its
  answer to reading the whole \<^verbatim>\<open>profiles\<close> collection; either read may raise.
\<close>

definition searchMentorsTry ::
  "(string \<Rightarrow> error + profile option) \<Rightarrow> (error + profile list) \<Rightarrow>
   string \<Rightarrow> string \<Rightarrow> string list option \<Rightarrow> error + rankedMentor list" where
  "searchMentorsTry getProfile getDocs currentUserId searchQuery searchSkills =
     (case getProfile currentUserId of
        Inl e \<Rightarrow> Inl e
      | Inr None \<Rightarrow> Inr []
      | Inr (Some currentProfile) \<Rightarrow>
          (let skillsToMatch = skillsToMatchFor currentProfile searchQuery searchSkills
           in if length skillsToMatch = 0 then Inr []
              else
                (case getDocs of
                   Inl e \<Rightarrow> Inl e
                 | Inr docs \<Rightarrow>
                     (let profiles = filter hasSkills (filter (\<lambda>p. userId p \<noteq> currentUserId) docs)
                      in if length profiles = 0 then Inr []
                         else
                           (let mentorsWithScores = map (scoreMentor skillsToMatch) profiles
                            in Inr (take 20 (js_sort compareMentors
                                      (filter (\<lambda>m. matchScore m > 0) mentorsWithScores))))))))"

text \<open>\<^verbatim>\<open>try { ... } catch (error) { return []; }\<close>\<close>

definition searchMentors ::
  "(string \<Rightarrow> error + profile option) \<Rightarrow> (error + profile list) \<Rightarrow>
   string \<Rightarrow> string \<Rightarrow> string list option \<Rightarrow> error + rankedMentor list" where
  "searchMentors getProfile getDocs currentUserId searchQuery searchSkills =
     (case searchMentorsTry getProfile getDocs currentUserId searchQuery searchSkills of
        Inl e \<Rightarrow> Inr []
      | Inr rankedMentors \<Rightarrow> Inr rankedMentors)"

section \<open>The document store\<close>

text \<open>
  Four collections.  Nothing here deletes a document, so a collection is the list of
  its documents in order of creation and a document id is the position:
  \<^verbatim>\<open>addDoc\<close> appends and returns the new position, \<^verbatim>\<open>getDoc\<close> reads a position,
  \<^verbatim>\<open>updateDoc\<close> overwrites fields at a position and fails on a missing document.
  A query returns the matching documents in the order of the list; the real store
  orders them by their generated ids, so which document a query returns first is not
  determined by the order of creation.
  \<^verbatim>\<open>serverTimestamp()\<close> is resolved by the server when a write lands; the time of
  each write is a parameter of the operation.
\<close>

type_synonym docId = nat
type_synonym timestamp = nat

datatype requestStatus = Pending | Accepted | Rejected

record mentorRequest =
  rq_senderId :: string
  rq_receiverId :: string
  rq_message :: string
  rq_status :: requestStatus
  rq_createdAt :: timestamp
  rq_respondedAt :: "timestamp option"

record chatRoom =
  cr_participants :: "string list"
  cr_userIds :: "string list"
  cr_createdAt :: timestamp
  cr_lastMessageAt :: timestamp

record message =
  msg_chatRoomId :: docId
  msg_senderId :: string
  msg_text :: string
  msg_createdAt :: timestamp

record reportedMessage =
  rm_senderId :: string
  rm_text :: string
  rm_createdAt :: timestamp

datatype reportStatus = ReportPending | Reviewed | ActionTaken

record chatReport =
  rp_channelId :: docId
  rp_reporterId :: string
  rp_reason :: string
  rp_participants :: "string list"
  rp_messages :: "reportedMessage list"
  rp_status :: reportStatus
  rp_createdAt :: timestamp

record store =
  mentorRequests :: "mentorRequest list"
  chatRooms :: "chatRoom list"
  messages :: "message list"
  chatReports :: "chatReport list"

definition getDoc :: "'a list \<Rightarrow> docId \<Rightarrow> 'a option" where
  "getDoc coll i = (if i < length coll then Some (coll ! i) else None)"

text \<open>The documents of a collection with their ids.\<close>

definition withIds :: "'a list \<Rightarrow> (docId \<times> 'a) list" where
  "withIds coll = zip [0 ..< length coll] coll"

section \<open>RequestLifecycle\<close>

text \<open>
  \<^verbatim>\<open>sendMentorRequest(fromUserId, toUserId, message = '')\<close>.  The result is the outcome
  together with the store afterwards.
\<close>

definition sendMentorRequest ::
  "moderator \<Rightarrow> store \<Rightarrow> string \<Rightarrow> string \<Rightarrow> string \<Rightarrow> timestamp \<Rightarrow> (error + docId) \<times> store" where
  "sendMentorRequest moderateContent st fromUserId toUserId msg now =
     (let moderation = (if msg \<noteq> [] then moderateContent msg ''message'' else Inr (True, []))
      in case moderation of
           Inl e \<Rightarrow> (Inl e, st)
         | Inr (safe, reason) \<Rightarrow>
             if \<not> safe then (Inl (ContentRejected reason), st)
             else
               (let existingDocs =
                      filter (\<lambda>r. rq_senderId r = fromUserId \<and> rq_receiverId r = toUserId)
                        (mentorRequests st)
                in if existingDocs \<noteq> [] \<and>
                      (rq_status (hd existingDocs) = Pending \<or> rq_status (hd existingDocs) = Accepted)
                   then (Inl DuplicateRequestError, st)
                   else
                     (let request = \<lparr>rq_senderId = fromUserId, rq_receiverId = toUserId,
                                     rq_message = msg, rq_status = Pending,
                                     rq_createdAt = now, rq_respondedAt = None\<rparr>
                      in (Inr (length (mentorRequests st)),
                          st\<lparr>mentorRequests := mentorRequests st @ [request]\<rparr>))))"

text \<open>
  \<^verbatim>\<open>respondToMentorRequest(requestId, accept)\<close>: two writes, the status update at
  \<open>tUpdate\<close> and, if accepted, the new chat room at \<open>tRoom\<close>.
\<close>

definition respondToMentorRequest ::
  "store \<Rightarrow> docId \<Rightarrow> bool \<Rightarrow> timestamp \<Rightarrow> timestamp \<Rightarrow> (error + unit) \<times> store" where
  "respondToMentorRequest st requestId accept tUpdate tRoom =
     (case getDoc (mentorRequests st) requestId of
        None \<Rightarrow> (Inl NotFoundError, st)
      | Some request \<Rightarrow>
          (let updated = request\<lparr>rq_status := (if accept then Accepted else Rejected),
                                 rq_respondedAt := Some tUpdate\<rparr>;
               st1 = st\<lparr>mentorRequests := (mentorRequests st)[requestId := updated]\<rparr>
           in if accept then
                (let chatRoom = \<lparr>cr_participants = [rq_senderId request, rq_receiverId request],
                                 cr_userIds = [rq_senderId request, rq_receiverId request],
                                 cr_createdAt = tRoom, cr_lastMessageAt = tRoom\<rparr>
                 in (Inr (), st1\<lparr>chatRooms := chatRooms st1 @ [chatRoom]\<rparr>))
              else (Inr (), st1)))"

section \<open>Channel\<close>

text \<open>
  The moderation step of \<^verbatim>\<open>sendMessage\<close>: the \<^verbatim>\<open>try\<close> block raises when the service
  raises and also, by its own \<^verbatim>\<open>throw\<close>, when the verdict is unsafe.
\<close>

definition moderationTry :: "moderator \<Rightarrow> string \<Rightarrow> error + unit" where
  "moderationTry moderateContent text =
     (case moderateContent text ''chat'' of
        Inl e \<Rightarrow> Inl e
      | Inr (safe, reason) \<Rightarrow> if \<not> safe then Inl (ContentRejected reason) else Inr ())"

text \<open>
  \<^verbatim>\<open>sendMessage(chatRoomId, senderId, text)\<close>.  The \<^verbatim>\<open>catch\<close> clause that follows the
  moderation \<^verbatim>\<open>try\<close> block logs a warning and falls through, whatever was raised.  Then
  the message is added at \<open>tMessage\<close> and the room's \<^verbatim>\<open>lastMessageAt\<close> is updated at
  \<open>tRoom\<close>.
\<close>

definition sendMessage ::
  "moderator \<Rightarrow> store \<Rightarrow> docId \<Rightarrow> string \<Rightarrow> string \<Rightarrow> timestamp \<Rightarrow> timestamp \<Rightarrow>
   (error + unit) \<times> store" where
  "sendMessage moderateContent st chatRoomId senderId text tMessage tRoom =
     (let caught = (case moderationTry moderateContent text of Inl moderationError \<Rightarrow> () | Inr u \<Rightarrow> ());
          msg = \<lparr>msg_chatRoomId = chatRoomId, msg_senderId = senderId, msg_text = text,
                 msg_createdAt = tMessage\<rparr>;
          st1 = st\<lparr>messages := messages st @ [msg]\<rparr>
      in case getDoc (chatRooms st1) chatRoomId of
           None \<Rightarrow> (Inl NotFoundError, st1)
         | Some room \<Rightarrow>
             (Inr (), st1\<lparr>chatRooms := (chatRooms st1)[chatRoomId := room\<lparr>cr_lastMessageAt := tRoom\<rparr>]\<rparr>))"

text \<open>
  \<^verbatim>\<open>getMessages(chatRoomId)\<close>: the channel's messages with their ids, as the query
  \<^verbatim>\<open>where('chatRoomId', '==', chatRoomId), orderBy('createdAt', 'asc')\<close> returns them:
  ascending by \<^verbatim>\<open>createdAt\<close>, equal timestamps in order of arrival.
\<close>

definition getMessages :: "store \<Rightarrow> docId \<Rightarrow> (docId \<times> message) list" where
  "getMessages st chatRoomId =
     sort_key (\<lambda>(i, m). msg_createdAt m)
       (filter (\<lambda>(i, m). msg_chatRoomId m = chatRoomId) (withIds (messages st)))"

section \<open>ReportCapture\<close>

text \<open>
  Modelled from the spec: \<^verbatim>\<open>reportChat\<close> (the spec's \<open>capture\<close>) is imported by the
  chat screen from the database module, but its definition is not in the sources at
  hand.  Following section 4.5 of the specification: the reason must be non-empty
  (\<open>ValidationError\<close>); the channel's current participants are loaded (a missing
  channel is reported as \<open>NotFoundError\<close>); the channel's current messages are loaded,
  reduced to sender, text and timestamp, and sorted ascending by timestamp locally;
  a new report with status pending holding that snapshot is persisted.
\<close>

definition snapshotOf :: "message \<Rightarrow> reportedMessage" where
  "snapshotOf m = \<lparr>rm_senderId = msg_senderId m, rm_text = msg_text m, rm_createdAt = msg_createdAt m\<rparr>"

definition capture ::
  "store \<Rightarrow> docId \<Rightarrow> string \<Rightarrow> string \<Rightarrow> timestamp \<Rightarrow> (error + docId) \<times> store" where
  "capture st channelId reporterId reason now =
     (if reason = [] then (Inl ValidationError, st)
      else
        (case getDoc (chatRooms st) channelId of
           None \<Rightarrow> (Inl NotFoundError, st)
         | Some room \<Rightarrow>
             (let current = filter (\<lambda>m. msg_chatRoomId m = channelId) (messages st);
                  snapshot = sort_key rm_createdAt (map snapshotOf current);
                  report = \<lparr>rp_channelId = channelId, rp_reporterId = reporterId,
                            rp_reason = reason, rp_participants = cr_participants room,
                            rp_messages = snapshot, rp_status = ReportPending,
                            rp_createdAt = now\<rparr>
              in (Inr (length (chatReports st)),
                  st\<lparr>chatReports := chatReports st @ [report]\<rparr>))))"

text \<open>
  Later activity: any sequence of the operations above, each with its own arguments,
  run from a given store.
\<close>

datatype activity =
    SendMessage moderator docId string string timestamp timestamp
  | SendMentorRequest moderator string string string timestamp
  | RespondToMentorRequest docId bool timestamp timestamp
  | Capture docId string string timestamp

fun perform :: "store \<Rightarrow> activity \<Rightarrow> store" where
  "perform st (SendMessage md c s t t1 t2) = snd (sendMessage md st c s t t1 t2)"
| "perform st (SendMentorRequest md a b m t) = snd (sendMentorRequest md st a b m t)"
| "perform st (RespondToMentorRequest r acc t1 t2) = snd (respondToMentorRequest st r acc t1 t2)"
| "perform st (Capture c r why t) = snd (capture st c r why t)"

definition performAll :: "store \<Rightarrow> activity list \<Rightarrow> store" where
  "performAll st acts = foldl perform st acts"

section \<open>Example data\<close>

definition exLearner :: profile where
  "exLearner = \<lparr>userId = ''u1'', skillsHave = Some [], skillsOffered = None,
                 skillsToLearn = Some [''python'', ''guitar''], skillsWanted = None, bio = ''''\<rparr>"

definition exPhotographer :: profile where
  "exPhotographer = \<lparr>userId = ''u2'', skillsHave = Some [''Photography''], skillsOffered = None,
                 skillsToLearn = Some [], skillsWanted = None, bio = ''''\<rparr>"

definition exProgrammer :: profile where
  "exProgrammer = \<lparr>userId = ''u3'', skillsHave = Some [''Python Programming''], skillsOffered = None,
                 skillsToLearn = Some [], skillsWanted = None, bio = ''''\<rparr>"

definition exAllRounder :: profile where
  "exAllRounder = \<lparr>userId = ''u4'', skillsHave = Some [''guitar'', ''python''], skillsOffered = None,
                 skillsToLearn = Some [], skillsWanted = None, bio = ''''\<rparr>"

definition exGetProfile :: "string \<Rightarrow> error + profile option" where
  "exGetProfile u = (if u = ''u1'' then Inr (Some exLearner) else Inr None)"

definition exProfiles :: "profile list" where
  "exProfiles = [exLearner, exPhotographer, exProgrammer, exAllRounder]"

definition safeModerator :: moderator where
  "safeModerator text kind = Inr (True, [])"

definition unsafeModerator :: moderator where
  "unsafeModerator text kind = Inr (False, ''abusive'')"

definition exRequest :: "string \<Rightarrow> string \<Rightarrow> requestStatus \<Rightarrow> mentorRequest" where
  "exRequest a b s = \<lparr>rq_senderId = a, rq_receiverId = b, rq_message = [], rq_status = s,
                      rq_createdAt = 1, rq_respondedAt = None\<rparr>"

definition exRoom :: chatRoom where
  "exRoom = \<lparr>cr_participants = [''alice'', ''bob''], cr_userIds = [''alice'', ''bob''],
             cr_createdAt = 2, cr_lastMessageAt = 2\<rparr>"

definition exMessage :: "string \<Rightarrow> string \<Rightarrow> timestamp \<Rightarrow> message" where
  "exMessage who what t = \<lparr>msg_chatRoomId = 0, msg_senderId = who, msg_text = what, msg_createdAt = t\<rparr>"

text \<open>One pending request from alice to bob.\<close>

definition exPending :: store where
  "exPending = \<lparr>mentorRequests = [exRequest ''alice'' ''bob'' Pending], chatRooms = [],
                messages = [], chatReports = []\<rparr>"

text \<open>The request accepted, with its chat room.\<close>

definition exAccepted :: store where
  "exAccepted = \<lparr>mentorRequests = [(exRequest ''alice'' ''bob'' Accepted)\<lparr>rq_respondedAt := Some 2\<rparr>],
                 chatRooms = [exRoom], messages = [], chatReports = []\<rparr>"

text \<open>
  Alice asks bob, bob declines, alice asks again: three calls of the operations above,
  starting from the empty store.
\<close>

definition emptyStore :: store where
  "emptyStore = \<lparr>mentorRequests = [], chatRooms = [], messages = [], chatReports = []\<rparr>"

definition exAsked :: store where
  "exAsked = snd (sendMentorRequest safeModerator emptyStore ''alice'' ''bob'' [] 1)"

definition exDeclined :: store where
  "exDeclined = snd (respondToMentorRequest exAsked 0 False 2 2)"

definition exAskedAgain :: store where
  "exAskedAgain = snd (sendMentorRequest safeModerator exDeclined ''alice'' ''bob'' [] 3)"

text \<open>The chat room with two messages, the later one stored first.\<close>

definition exChat :: store where
  "exChat = \<lparr>mentorRequests = [(exRequest ''alice'' ''bob'' Accepted)\<lparr>rq_respondedAt := Some 2\<rparr>],
             chatRooms = [exRoom],
             messages = [exMessage ''bob'' ''hello'' 4, exMessage ''alice'' ''hi'' 3],
             chatReports = []\<rparr>"

section \<open>Properties of normalizeSkill\<close>

lemma kept_lowerChar: "kept c \<Longrightarrow> lowerChar c = c"
  by (auto simp: kept_def lowerChar_def isSpace_def)

lemma toLowerCase_kept: "\<forall>c\<in>set s. kept c \<Longrightarrow> toLowerCase s = s"
  by (simp add: toLowerCase_def kept_lowerChar map_idI)

lemma set_trim: "set (trim s) \<subseteq> set s"
proof -
  have "set (trimEnd t) \<subseteq> set t" for t
    unfolding trimEnd_def using set_dropWhileD[of _ isSpace "rev t"] by auto
  moreover have "set (trimStart s) \<subseteq> set s"
    unfolding trimStart_def using set_dropWhileD[of _ isSpace s] by auto
  ultimately show ?thesis unfolding trim_def by blast
qed

lemma trimStart_id: "s = [] \<or> \<not> isSpace (hd s) \<Longrightarrow> trimStart s = s"
  by (cases s) (auto simp: trimStart_def)

lemma trimEnd_id: "s = [] \<or> \<not> isSpace (last s) \<Longrightarrow> trimEnd s = s"
  by (cases s rule: rev_cases) (auto simp: trimEnd_def)

lemma trimStart_hd: "trimStart s = [] \<or> \<not> isSpace (hd (trimStart s))"
  unfolding trimStart_def using hd_dropWhile[of isSpace s] by blast

lemma trimEnd_last: "trimEnd s = [] \<or> \<not> isSpace (last (trimEnd s))"
  unfolding trimEnd_def using hd_dropWhile[of isSpace "rev s"]
  by (auto simp: last_rev)

lemma trimEnd_keeps_hd:
  assumes "s \<noteq> []" "\<not> isSpace (hd s)"
  shows "trimEnd s \<noteq> [] \<and> hd (trimEnd s) = hd s"
proof -
  obtain c cs where s: "s = c # cs" using assms(1) by (cases s) auto
  with assms(2) have c: "\<not> isSpace c" by simp
  have "dropWhile isSpace (rev cs @ [c]) = dropWhile isSpace (rev cs) @ [c]"
    using c by (simp add: dropWhile_append3)
  then show ?thesis by (simp add: trimEnd_def s)
qed

lemma trim_fixed: "trim (trim s) = trim s"
proof -
  let ?t = "trimStart s"
  have e: "trimEnd (trim s) = trim s"
    unfolding trim_def using trimEnd_last[of ?t] by (intro trimEnd_id)
  have "trim s = [] \<or> \<not> isSpace (hd (trim s))"
  proof (cases "?t = []")
    case True
    then show ?thesis by (simp add: trim_def trimEnd_def)
  next
    case False
    with trimStart_hd[of s] have "\<not> isSpace (hd ?t)" by simp
    with False trimEnd_keeps_hd[of ?t] show ?thesis by (simp add: trim_def)
  qed
  then have "trimStart (trim s) = trim s" by (rule trimStart_id)
  then show ?thesis using e by (simp add: trim_def)
qed

lemma normalizeSkill_kept: "\<forall>c\<in>set (normalizeSkill s). kept c"
  by (simp add: normalizeSkill_def)

lemma normalizeSkill_twice: "normalizeSkill (normalizeSkill s) = trim (normalizeSkill s)"
proof -
  let ?r = "normalizeSkill s"
  have k: "\<forall>c\<in>set ?r. kept c" by (rule normalizeSkill_kept)
  then have "toLowerCase ?r = ?r" by (rule toLowerCase_kept)
  moreover have "\<forall>c\<in>set (trim ?r). kept c" using k set_trim[of ?r] by blast
  then have "filter kept (trim ?r) = trim ?r" by simp
  ultimately show ?thesis by (simp add: normalizeSkill_def[of ?r])
qed

lemma plain_lowerChar_kept: "plainChar c \<Longrightarrow> kept (lowerChar c)"
  by (auto simp: plainChar_def kept_def lowerChar_def isSpace_def code_def)

lemma normalizeSkill_plain:
  assumes "\<forall>c\<in>set s. plainChar c"
  shows "normalizeSkill s = trim (toLowerCase s)"
proof -
  have "\<forall>c\<in>set (toLowerCase s). kept c"
    using assms by (auto simp: toLowerCase_def plain_lowerChar_kept)
  then have "\<forall>c\<in>set (trim (toLowerCase s)). kept c"
    using set_trim[of "toLowerCase s"] by blast
  then show ?thesis by (simp add: normalizeSkill_def)
qed

text \<open>
  C6 (as stated): \<open>normalize\<close> is idempotent for every input string.  It is not: the
  source trims before it strips, so whitespace laid bare by stripping a leading or
  trailing character survives the first pass and is trimmed by the second.
\<close>

theorem normalizeSkill_not_idempotent:
  "normalizeSkill (normalizeSkill ''! a'') \<noteq> normalizeSkill ''! a''"
  by code_simp

text \<open>
  C6 (amended): a second application only trims the result of the first, so
  \<open>normalize(normalize(s)) = normalize(s)\<close> exactly when \<open>normalize(s)\<close> has no leading or
  trailing whitespace; this is the case for every input made of ASCII letters, digits
  and whitespace only; and from the second application on the value no longer changes.
\<close>

theorem normalizeSkill_idempotent_amended:
  "normalizeSkill (normalizeSkill s) = trim (normalizeSkill s)
   \<and> ((normalizeSkill (normalizeSkill s) = normalizeSkill s) = (trim (normalizeSkill s) = normalizeSkill s))
   \<and> ((\<forall>c\<in>set s. plainChar c) \<longrightarrow> normalizeSkill (normalizeSkill s) = normalizeSkill s)
   \<and> normalizeSkill (normalizeSkill (normalizeSkill s)) = normalizeSkill (normalizeSkill s)"
proof -
  have a: "normalizeSkill (normalizeSkill s) = trim (normalizeSkill s)"
    by (rule normalizeSkill_twice)
  have c: "normalizeSkill (normalizeSkill s) = normalizeSkill s" if "\<forall>c\<in>set s. plainChar c"
  proof -
    from that have e: "normalizeSkill s = trim (toLowerCase s)"
      by (rule normalizeSkill_plain)
    have "trim (normalizeSkill s) = normalizeSkill s"
      unfolding e by (rule trim_fixed)
    with a show ?thesis by simp
  qed
  have "normalizeSkill (normalizeSkill (normalizeSkill s)) = trim (normalizeSkill (normalizeSkill s))"
    by (rule normalizeSkill_twice)
  also have "\<dots> = trim (trim (normalizeSkill s))"
    by (simp only: a)
  also have "\<dots> = trim (normalizeSkill s)"
    by (rule trim_fixed)
  finally have d: "normalizeSkill (normalizeSkill (normalizeSkill s)) = normalizeSkill (normalizeSkill s)"
    by (simp only: a)
  show ?thesis using a c d by simp
qed

theorem normalizeSkill_idempotent_amended_witness:
  "list_all plainChar ''Web Dev 2''
   \<and> normalizeSkill ''Web Dev 2'' = ''web dev 2''
   \<and> normalizeSkill (normalizeSkill ''Web Dev 2'') = normalizeSkill ''Web Dev 2''"
proof -
  have l: "list_all plainChar ''Web Dev 2''" by code_simp
  then have h: "\<forall>c\<in>set ''Web Dev 2''. plainChar c" by (simp only: list_all_iff)
  have v: "normalizeSkill ''Web Dev 2'' = ''web dev 2''" by code_simp
  from normalizeSkill_idempotent_amended[of "''Web Dev 2''"] h l v show ?thesis by blast
qed

section \<open>Properties of skillsMatch\<close>

lemma list_ex_swap:
  "list_ex (\<lambda>x. list_ex (\<lambda>y. P x y) ys) xs = list_ex (\<lambda>y. list_ex (\<lambda>x. P x y) xs) ys"
  by (auto simp: list_ex_iff)

lemma wordsOverlap_sym: "wordsOverlap a b = wordsOverlap b a"
  by (auto simp: wordsOverlap_def)

text \<open>
  C9: \<open>matches\<close> is symmetric: for every pair of skill strings \<open>a\<close> and \<open>b\<close>,
  \<open>matches(a, b) = matches(b, a)\<close>.
\<close>

theorem skillsMatch_symmetric: "skillsMatch a b = skillsMatch b a"
proof -
  have "list_ex (\<lambda>w1. list_ex (\<lambda>w2. wordsOverlap w1 w2) ys) xs
      = list_ex (\<lambda>w1. list_ex (\<lambda>w2. wordsOverlap w1 w2) xs) ys" for xs ys
    by (subst list_ex_swap) (simp add: wordsOverlap_sym)
  then show ?thesis
    unfolding skillsMatch_def Let_def by (auto simp: eq_commute)
qed


section \<open>Rounding to the nearest double\<close>

declare toDouble.simps [simp del]

lemma roundEven_bounds: "\<lfloor>x\<rfloor> \<le> roundEven x \<and> roundEven x \<le> \<lfloor>x\<rfloor> + 1"
  by (simp add: roundEven_def Let_def)

lemma roundEven_of_int: "roundEven (of_int k) = k"
  by (simp add: roundEven_def Let_def)

lemma roundEven_mono:
  assumes "a \<le> b"
  shows "roundEven a \<le> roundEven b"
proof (cases "\<lfloor>a\<rfloor> = \<lfloor>b\<rfloor>")
  case True
  have "a - of_int \<lfloor>a\<rfloor> \<le> b - of_int \<lfloor>b\<rfloor>"
    using assms True by simp
  then show ?thesis
    using True by (auto simp: roundEven_def Let_def)
next
  case False
  have "\<lfloor>a\<rfloor> \<le> \<lfloor>b\<rfloor>" using assms by (rule floor_mono)
  with False have "\<lfloor>a\<rfloor> + 1 \<le> \<lfloor>b\<rfloor>" by simp
  with roundEven_bounds[of a] roundEven_bounds[of b] show ?thesis by linarith
qed

lemma roundEven_ge: "of_int k \<le> x \<Longrightarrow> k \<le> roundEven x"
  using roundEven_mono[of "of_int k" x] by (simp add: roundEven_of_int)

lemma roundEven_le: "x \<le> of_int k \<Longrightarrow> roundEven x \<le> k"
  using roundEven_mono[of x "of_int k"] by (simp add: roundEven_of_int)

lemma toDouble_nonpos: "x \<le> 0 \<Longrightarrow> toDouble x = 0"
  by (simp add: toDouble.simps)

lemma toDouble_small: "0 < x \<Longrightarrow> x < 2 ^ 52 \<Longrightarrow> toDouble x = toDouble (2 * x) / 2"
  by (subst toDouble.simps) simp

lemma toDouble_large: "2 ^ 53 \<le> x \<Longrightarrow> toDouble x = 2 * toDouble (x / 2)"
  by (subst toDouble.simps) simp

lemma toDouble_mid: "2 ^ 52 \<le> x \<Longrightarrow> x < 2 ^ 53 \<Longrightarrow> toDouble x = of_int (roundEven x)"
  by (subst toDouble.simps) simp

lemma toDouble_double: "toDouble (2 * y) = 2 * toDouble y"
proof -
  consider "y \<le> 0" | "0 < y" "y < 2 ^ 52" | "2 ^ 52 \<le> y"
    by linarith
  then show ?thesis
  proof cases
    case 1
    then show ?thesis by (simp add: toDouble_nonpos)
  next
    case 2
    then show ?thesis by (simp add: toDouble_small)
  next
    case 3
    then have "2 ^ 53 \<le> 2 * y" by simp
    then show ?thesis using toDouble_large[of "2 * y"] by simp
  qed
qed

lemma toDouble_half: "toDouble (y / 2) = toDouble y / 2"
  using toDouble_double[of "y / 2"] by simp

lemma of_int_roundEven_ge: "2 ^ 52 \<le> x \<Longrightarrow> (2::rat) ^ 52 \<le> of_int (roundEven x)"
proof -
  assume "2 ^ 52 \<le> x"
  then have "2 ^ 52 \<le> roundEven x" by (intro roundEven_ge) simp
  then show ?thesis by (metis of_int_le_iff of_int_numeral of_int_power)
qed

lemma of_int_roundEven_le: "x \<le> 2 ^ 53 \<Longrightarrow> of_int (roundEven x) \<le> (2::rat) ^ 53"
proof -
  assume "x \<le> 2 ^ 53"
  then have "roundEven x \<le> 2 ^ 53" by (intro roundEven_le) simp
  then show ?thesis by (metis of_int_le_iff of_int_numeral of_int_power)
qed

lemma toDouble_ge_large: "2 ^ 53 \<le> y \<Longrightarrow> 2 ^ 53 \<le> toDouble y"
proof (induction y rule: toDouble.induct)
  case (1 y)
  show ?case
  proof (cases "2 ^ 53 \<le> y / 2")
    case True
    with 1 have "2 ^ 53 \<le> toDouble (y / 2)" by simp
    then show ?thesis using toDouble_large[OF 1(3)] by simp
  next
    case False
    moreover have h: "2 ^ 52 \<le> y / 2" using 1(3) by simp
    ultimately have "toDouble (y / 2) = of_int (roundEven (y / 2))"
      by (intro toDouble_mid) simp_all
    then show ?thesis
      using toDouble_large[OF 1(3)] of_int_roundEven_ge[OF h] by simp
  qed
qed

lemma toDouble_nonneg: "0 \<le> toDouble x"
proof (induction x rule: toDouble.induct)
  case (1 x)
  consider "x \<le> 0" | "0 < x" "x < 2 ^ 52" | "2 ^ 53 \<le> x" | "2 ^ 52 \<le> x" "x < 2 ^ 53"
    by linarith
  then show ?case
  proof cases
    case 1
    then show ?thesis by (simp add: toDouble_nonpos)
  next
    case 2
    with "1.IH"(1) have "0 \<le> toDouble (2 * x)" by simp
    then show ?thesis using 2 by (simp add: toDouble_small)
  next
    case 3
    then show ?thesis using toDouble_ge_large[of x] by simp
  next
    case 4
    then show ?thesis using of_int_roundEven_ge[of x] by (simp add: toDouble_mid)
  qed
qed

lemma toDouble_mono_pos: "0 < x \<Longrightarrow> x \<le> y \<Longrightarrow> toDouble x \<le> toDouble y"
proof (induction x arbitrary: y rule: toDouble.induct)
  case (1 x)
  consider "x < 2 ^ 52" | "2 ^ 53 \<le> x" | "2 ^ 52 \<le> x" "x < 2 ^ 53"
    by linarith
  then show ?case
  proof cases
    case 1
    have "toDouble (2 * x) \<le> toDouble (2 * y)"
      using "1.prems" 1 by (intro "1.IH"(1)) simp_all
    then show ?thesis
      using toDouble_small[of x] "1.prems" 1 by (simp add: toDouble_double[of y])
  next
    case 2
    have "toDouble (x / 2) \<le> toDouble (y / 2)"
      using "1.prems" 2 by (intro "1.IH"(2)) simp_all
    then show ?thesis
      using toDouble_large[of x] 2 by (simp add: toDouble_half[of y])
  next
    case 3
    then have dx: "toDouble x = of_int (roundEven x)" by (rule toDouble_mid)
    show ?thesis
    proof (cases "y < 2 ^ 53")
      case True
      then have "toDouble y = of_int (roundEven y)"
        using 3 "1.prems" by (intro toDouble_mid) simp_all
      then show ?thesis using dx roundEven_mono[OF "1.prems"(2)] by simp
    next
      case False
      then have "2 ^ 53 \<le> toDouble y" by (intro toDouble_ge_large) simp
      moreover have "of_int (roundEven x) \<le> (2::rat) ^ 53"
        using 3 by (intro of_int_roundEven_le) simp
      ultimately show ?thesis using dx by simp
    qed
  qed
qed

lemma toDouble_mono:
  assumes "x \<le> y"
  shows "toDouble x \<le> toDouble y"
proof (cases "0 < x")
  case True
  with assms show ?thesis by (simp add: toDouble_mono_pos)
next
  case False
  then have "toDouble x = 0" by (simp add: toDouble_nonpos)
  then show ?thesis by (simp add: toDouble_nonneg)
qed

text \<open>
  Evaluation: scale by a power of two into \<open>[2^52, 2^53)\<close>, round there, scale back.
\<close>

lemma toDouble_scale: "toDouble (x * 2 ^ k) = toDouble x * 2 ^ k"
proof (induction k)
  case 0
  then show ?case by simp
next
  case (Suc k)
  have "toDouble (x * 2 ^ Suc k) = toDouble (2 * (x * 2 ^ k))"
    by (simp add: mult.commute mult.left_commute)
  also have "\<dots> = 2 * toDouble (x * 2 ^ k)"
    by (rule toDouble_double)
  finally show ?case using Suc by simp
qed

lemma roundEven_nearest:
  assumes "of_int m - 1 / 2 < x" "x < of_int m + 1 / 2"
  shows "roundEven x = m"
proof (cases "of_int m \<le> x")
  case True
  with assms have "\<lfloor>x\<rfloor> = m" by (simp add: floor_eq_iff)
  with assms show ?thesis by (simp add: roundEven_def Let_def)
next
  case False
  with assms have "\<lfloor>x\<rfloor> = m - 1" by (simp add: floor_eq_iff)
  with assms show ?thesis by (simp add: roundEven_def Let_def)
qed

lemma toDouble_eval:
  assumes "2 ^ 52 \<le> x * 2 ^ k" "x * 2 ^ k < 2 ^ 53"
    and "of_int m - 1 / 2 < x * 2 ^ k" "x * 2 ^ k < of_int m + 1 / 2"
  shows "toDouble x = of_int m / 2 ^ k"
proof -
  have "toDouble x * 2 ^ k = of_int (roundEven (x * 2 ^ k))"
    using toDouble_mid[OF assms(1,2)] by (simp add: toDouble_scale)
  also have "\<dots> = of_int m"
    using roundEven_nearest[OF assms(3,4)] by simp
  finally show ?thesis by (simp add: field_simps)
qed

text \<open>The doubles the score computation meets at its boundaries.\<close>

lemma toDouble_zero: "toDouble 0 = 0"
  by (simp add: toDouble_nonpos)

lemma toDouble_one: "toDouble 1 = 1"
  using toDouble_eval[of 1 52 "2 ^ 52"] by simp

lemma toDouble_hundred: "toDouble 100 = 100"
  using toDouble_eval[of 100 46 "100 * 2 ^ 46"] by simp

lemma toDouble_fifty: "toDouble 50 = 50"
  using toDouble_eval[of 50 47 "50 * 2 ^ 47"] by simp

lemma toDouble_one_half: "toDouble (1 / 2) = 1 / 2"
  using toDouble_eval[of "1 / 2" 53 "2 ^ 52"] by simp

lemma toDouble_200th: "toDouble (1 / 200) = 5764607523034235 / 2 ^ 60"
  using toDouble_eval[of "1 / 200" 60 5764607523034235] by simp

lemma toDouble_201st: "toDouble (1 / 201) = 5735927883616154 / 2 ^ 60"
  using toDouble_eval[of "1 / 201" 60 5735927883616154] by simp

lemma toDouble_201st_percent:
  "toDouble (5735927883616154 / 2 ^ 60 * 100) = 8962387318150241 / 2 ^ 54"
  using toDouble_eval[of "5735927883616154 / 2 ^ 60 * 100" 54 8962387318150241] by simp

lemma one_in_201_rounds_to_zero: "js_round (fmul (fdiv 1 201) 100) = 0"
proof -
  have "fmul (fdiv 1 201) 100 = 8962387318150241 / 2 ^ 54"
    unfolding fdiv_def fmul_def toDouble_201st by (rule toDouble_201st_percent)
  then show ?thesis by (simp add: js_round_def floor_eq_iff)
qed

lemma one_in_two_rounds_to_50: "js_round (fmul (fdiv 1 2) 100) = 50"
proof -
  have "fmul (fdiv 1 2) 100 = 50"
    unfolding fdiv_def fmul_def toDouble_one_half using toDouble_fifty by simp
  then show ?thesis by (simp add: js_round_def floor_eq_iff)
qed

lemma percent_range:
  assumes "k \<le> n" "0 < n"
  shows "0 \<le> js_round (fmul (fdiv (of_nat k) (of_nat n)) 100)
       \<and> js_round (fmul (fdiv (of_nat k) (of_nat n)) 100) \<le> 100"
proof -
  let ?q = "fdiv (of_nat k) (of_nat n)"
  have "(of_nat k :: rat) / of_nat n \<le> 1" using assms by simp
  then have "?q \<le> toDouble 1" unfolding fdiv_def by (rule toDouble_mono)
  then have "?q * 100 \<le> 100" by (simp add: toDouble_one)
  then have "fmul ?q 100 \<le> toDouble 100" unfolding fmul_def by (rule toDouble_mono)
  then have u: "fmul ?q 100 \<le> 100" by (simp add: toDouble_hundred)
  have l: "0 \<le> fmul ?q 100" unfolding fmul_def by (rule toDouble_nonneg)
  have "js_round (fmul ?q 100) \<le> 100"
    unfolding js_round_def using u by (simp add: floor_le_iff)
  moreover have "0 \<le> js_round (fmul ?q 100)"
    unfolding js_round_def using l by simp
  ultimately show ?thesis by simp
qed

lemma percent_zero: "js_round (fmul (fdiv 0 n) 100) = 0"
  by (simp add: fdiv_def fmul_def toDouble_zero js_round_def floor_eq_iff)

lemma percent_positive:
  assumes "1 \<le> k" "0 < n" "n \<le> 200"
  shows "1 \<le> js_round (fmul (fdiv (of_nat k) (of_nat n)) 100)"
proof -
  let ?q = "fdiv (of_nat k) (of_nat n)"
  have "(1::rat) / 200 \<le> 1 / of_nat n"
    using assms by (simp add: field_simps)
  also have "\<dots> \<le> of_nat k / of_nat n"
    using assms by (simp add: divide_right_mono)
  finally have "toDouble (1 / 200) \<le> ?q"
    unfolding fdiv_def by (rule toDouble_mono)
  then have "1 / 2 \<le> ?q * 100" by (simp add: toDouble_200th)
  then have "toDouble (1 / 2) \<le> fmul ?q 100"
    unfolding fmul_def by (rule toDouble_mono)
  then have "1 / 2 \<le> fmul ?q 100" by (simp only: toDouble_one_half)
  then show ?thesis unfolding js_round_def by (simp add: le_floor_iff)
qed

section \<open>Properties of calculateLocalMatchScore\<close>

lemma matchLoop_extends:
  "\<exists>extra. matchLoop ws hs (ms, c) = (ms @ extra, c + length extra) \<and> length extra \<le> length ws"
proof (induction ws arbitrary: ms c)
  case Nil
  then show ?case by simp
next
  case (Cons w ws)
  show ?case
  proof (cases "find (\<lambda>hasSkill. skillsMatch w hasSkill) hs")
    case None
    with Cons[of ms c] show ?thesis by auto
  next
    case (Some h)
    from Cons[of "ms @ [h]" "c + 1"] obtain extra where
      "matchLoop ws hs (ms @ [h], c + 1) = ((ms @ [h]) @ extra, c + 1 + length extra)"
      "length extra \<le> length ws" by blast
    with Some have "matchLoop (w # ws) hs (ms, c) = (ms @ (h # extra), c + length (h # extra))
          \<and> length (h # extra) \<le> length (w # ws)" by simp
    then show ?thesis by blast
  qed
qed

lemma set_setInsertAll: "set (setInsertAll seen xs) = set seen \<union> set xs"
  by (induction xs arbitrary: seen) auto

lemma uniqueInOrder_empty: "(uniqueInOrder xs = []) = (xs = [])"
proof -
  have "set (uniqueInOrder xs) = set xs"
    by (simp add: uniqueInOrder_def set_setInsertAll)
  then show ?thesis by (metis set_empty)
qed

lemma score_shape:
  assumes "wanted \<noteq> []" "has \<noteq> []"
  shows "\<exists>ms. length ms \<le> length wanted
          \<and> calculateLocalMatchScore wanted has =
              (js_round (fmul (fdiv (of_nat (length ms)) (of_nat (length wanted))) 100),
               uniqueInOrder ms)"
proof -
  from matchLoop_extends[of wanted has "[]" 0] obtain ms where
    "matchLoop wanted has ([], 0) = (ms, length ms)" "length ms \<le> length wanted"
    by auto
  with assms show ?thesis
    by (auto simp: calculateLocalMatchScore_def)
qed

lemma calculateLocalMatchScore_nonneg: "0 \<le> fst (calculateLocalMatchScore wanted has)"
proof (cases "wanted = [] \<or> has = []")
  case True
  then show ?thesis by (auto simp: calculateLocalMatchScore_def)
next
  case False
  then have ne: "wanted \<noteq> []" "has \<noteq> []" by simp_all
  from score_shape[OF ne] obtain ms where
    le: "length ms \<le> length wanted" and
    eq: "calculateLocalMatchScore wanted has =
          (js_round (fmul (fdiv (of_nat (length ms)) (of_nat (length wanted))) 100), uniqueInOrder ms)"
    by blast
  have n: "0 < length wanted" using ne by simp
  show ?thesis unfolding eq fst_conv using percent_range[OF le n] by simp
qed

lemma matchLoop_no_match:
  "\<forall>w\<in>set ws. \<forall>h\<in>set hs. \<not> skillsMatch w h \<Longrightarrow> matchLoop ws hs (ms, c) = (ms, c)"
proof (induction ws)
  case Nil
  then show ?case by simp
next
  case (Cons w ws)
  then have "find (\<lambda>hasSkill. skillsMatch w hasSkill) hs = None"
    by (simp add: find_None_iff)
  with Cons show ?case by simp
qed

lemma b_does_not_match_a: "\<not> skillsMatch ''b'' ''a''"
  by code_simp

lemma a_matches_a: "skillsMatch ''a'' ''a''"
  by code_simp

text \<open>
  C7 (as stated): the score is 0 if and only if \<open>matchedSkills\<close> is empty.  With 201
  wanted skills of which one is matched, \<open>Math.round(1 / 201 * 100)\<close> is 0 while
  \<open>matchedSkills\<close> holds the matched skill.
\<close>

theorem score_zero_with_match:
  "calculateLocalMatchScore (''a'' # replicate 200 ''b'') [''a''] = (0, [''a''])"
proof -
  have "matchLoop (replicate 200 ''b'') [''a''] ([''a''], 1) = ([''a''], 1)"
    by (rule matchLoop_no_match) (simp add: b_does_not_match_a)
  then have "matchLoop (''a'' # replicate 200 ''b'') [''a''] ([], 0) = ([''a''], 1)"
    by (simp add: a_matches_a)
  moreover have "uniqueInOrder [''a''] = [''a'']"
    by (simp add: uniqueInOrder_def)
  ultimately show ?thesis
    using one_in_201_rounds_to_zero by (simp add: calculateLocalMatchScore_def)
qed

text \<open>
  C7 (amended): for every wanted list and has list the score is an integer in
  \<open>[0, 100]\<close>; an empty \<open>matchedSkills\<close> forces score 0; a score of 0 forces an empty
  \<open>matchedSkills\<close> whenever the wanted list has at most 200 entries; and if wanted or
  has is empty the result is \<open>(0, {})\<close>.
\<close>

theorem score_range_and_zero:
  "0 \<le> fst (calculateLocalMatchScore wanted has)
   \<and> fst (calculateLocalMatchScore wanted has) \<le> 100
   \<and> (snd (calculateLocalMatchScore wanted has) = [] \<longrightarrow> fst (calculateLocalMatchScore wanted has) = 0)
   \<and> (length wanted \<le> 200 \<longrightarrow> fst (calculateLocalMatchScore wanted has) = 0
        \<longrightarrow> snd (calculateLocalMatchScore wanted has) = [])
   \<and> (wanted = [] \<or> has = [] \<longrightarrow> calculateLocalMatchScore wanted has = (0, []))"
proof (cases "wanted = [] \<or> has = []")
  case True
  then show ?thesis by (auto simp: calculateLocalMatchScore_def)
next
  case False
  then have ne: "wanted \<noteq> []" "has \<noteq> []" by simp_all
  from score_shape[OF ne] obtain ms where
    le: "length ms \<le> length wanted" and
    eq: "calculateLocalMatchScore wanted has =
          (js_round (fmul (fdiv (of_nat (length ms)) (of_nat (length wanted))) 100), uniqueInOrder ms)"
    by blast
  have n: "0 < length wanted" using ne by simp
  have r: "0 \<le> fst (calculateLocalMatchScore wanted has) \<and> fst (calculateLocalMatchScore wanted has) \<le> 100"
    unfolding eq fst_conv by (rule percent_range[OF le n])
  have z: "fst (calculateLocalMatchScore wanted has) = 0" if "snd (calculateLocalMatchScore wanted has) = []"
  proof -
    from that have "ms = []" by (simp add: eq uniqueInOrder_empty)
    then show ?thesis using percent_zero[of "of_nat (length wanted)"] by (simp add: eq)
  qed
  have p: "snd (calculateLocalMatchScore wanted has) = []"
    if "length wanted \<le> 200" "fst (calculateLocalMatchScore wanted has) = 0"
  proof (rule ccontr)
    assume "snd (calculateLocalMatchScore wanted has) \<noteq> []"
    then have "ms \<noteq> []" by (simp add: eq uniqueInOrder_empty)
    then have "1 \<le> length ms" by (cases ms) simp_all
    from percent_positive[OF this n that(1)] that(2) show False by (simp add: eq)
  qed
  show ?thesis using r z p False by blast
qed

theorem score_range_and_zero_witness:
  "length [''python'', ''guitar''] \<le> 200
   \<and> calculateLocalMatchScore [''python'', ''guitar''] [''Python Programming'', ''Photography'']
       = (50, [''Python Programming''])
   \<and> calculateLocalMatchScore [''guitar''] [''Photography''] = (0, [])
   \<and> calculateLocalMatchScore [] [''Photography''] = (0, [])"
proof -
  have "matchLoop [''python'', ''guitar''] [''Python Programming'', ''Photography''] ([], 0)
          = ([''Python Programming''], 1)" by code_simp
  then have a: "calculateLocalMatchScore [''python'', ''guitar''] [''Python Programming'', ''Photography'']
       = (50, [''Python Programming''])"
    using one_in_two_rounds_to_50 by (simp add: calculateLocalMatchScore_def uniqueInOrder_def)
  have "matchLoop [''guitar''] [''Photography''] ([], 0) = ([], 0)" by code_simp
  then have b: "snd (calculateLocalMatchScore [''guitar''] [''Photography'']) = []"
    by (simp add: calculateLocalMatchScore_def uniqueInOrder_def)
  have c: "calculateLocalMatchScore [] [''Photography''] = (0, [])"
    using score_range_and_zero[of "[]" "[''Photography'']"] by simp
  have d: "fst (calculateLocalMatchScore [''guitar''] [''Photography'']) = 0"
    using score_range_and_zero[of "[''guitar'']" "[''Photography'']"] b by blast
  show ?thesis using a b c d by (simp add: prod_eq_iff)
qed


section \<open>Properties of the stable sort\<close>

lemma mset_insertSorted: "mset (insertSorted cmp x xs) = add_mset x (mset xs)"
  by (induction xs) auto

lemma mset_js_sort: "mset (js_sort cmp xs) = mset xs"
  by (induction xs) (simp_all add: js_sort_def mset_insertSorted)

lemma set_insertSorted: "set (insertSorted cmp x xs) = insert x (set xs)"
  by (induction xs) auto

lemma filter_insertSorted:
  assumes "\<And>y. P x \<Longrightarrow> P y \<Longrightarrow> cmp x y \<le> 0"
  shows "filter P (insertSorted cmp x xs) = (if P x then x # filter P xs else filter P xs)"
  using assms by (induction xs) auto

lemma filter_js_sort:
  assumes "\<And>x y. P x \<Longrightarrow> P y \<Longrightarrow> cmp x y \<le> 0"
  shows "filter P (js_sort cmp xs) = filter P xs"
proof (induction xs)
  case Nil
  then show ?case by (simp add: js_sort_def)
next
  case (Cons x xs)
  have "js_sort cmp (x # xs) = insertSorted cmp x (js_sort cmp xs)"
    by (simp add: js_sort_def)
  then show ?case
    using Cons filter_insertSorted[of P x cmp "js_sort cmp xs"] assms by simp
qed

text \<open>The order the comparator of \<open>searchMentors\<close> induces.\<close>

lemma compareMentors_le:
  "(compareMentors a b \<le> 0) =
     (matchScore b < matchScore a
      \<or> (matchScore a = matchScore b \<and> length (matchedSkills b) \<le> length (matchedSkills a)))"
  by (auto simp: compareMentors_def)

lemma sorted_insertSorted_mentors:
  assumes "sorted_wrt (\<lambda>a b. compareMentors a b \<le> 0) xs"
  shows "sorted_wrt (\<lambda>a b. compareMentors a b \<le> 0) (insertSorted compareMentors x xs)"
  using assms
proof (induction xs)
  case Nil
  then show ?case by simp
next
  case (Cons y ys)
  show ?case
  proof (cases "compareMentors x y \<le> 0")
    case True
    have "compareMentors x z \<le> 0" if "z \<in> set ys" for z
    proof -
      from Cons.prems that have "compareMentors y z \<le> 0" by simp
      with True show ?thesis unfolding compareMentors_le by linarith
    qed
    with True Cons.prems show ?thesis by simp
  next
    case False
    then have "compareMentors y x \<le> 0" unfolding compareMentors_le by linarith
    with False Cons show ?thesis by (simp add: set_insertSorted)
  qed
qed

lemma sorted_js_sort_mentors: "sorted_wrt (\<lambda>a b. compareMentors a b \<le> 0) (js_sort compareMentors xs)"
proof (induction xs)
  case Nil
  then show ?case by (simp add: js_sort_def)
next
  case (Cons x xs)
  have "js_sort compareMentors (x # xs) = insertSorted compareMentors x (js_sort compareMentors xs)"
    by (simp add: js_sort_def)
  with Cons show ?case by (simp add: sorted_insertSorted_mentors)
qed

section \<open>Properties of searchMentors\<close>

lemma scoreMentor_nonneg: "0 \<le> matchScore (scoreMentor skills m)"
proof -
  let ?has = "case skillsHave m of Some s \<Rightarrow> s
       | None \<Rightarrow> (case skillsOffered m of Some s \<Rightarrow> s | None \<Rightarrow> [])"
  have "matchScore (scoreMentor skills m) = fst (calculateLocalMatchScore skills ?has)"
    by (simp add: scoreMentor_def split: prod.splits)
  then show ?thesis by (simp add: calculateLocalMatchScore_nonneg)
qed

lemma scoreMentor_no_skills: "matchScore (scoreMentor [] m) = 0"
  by (simp add: scoreMentor_def calculateLocalMatchScore_def)

lemma searchMentors_reads_ok:
  assumes "getProfile currentUserId = Inr (Some currentProfile)" "getDocs = Inr docs"
  shows "searchMentors getProfile getDocs currentUserId searchQuery searchSkills =
           Inr (take 20 (js_sort compareMentors (filter (\<lambda>m. matchScore m \<noteq> 0)
                  (map (scoreMentor (skillsToMatchFor currentProfile searchQuery searchSkills))
                     (filter hasSkills (filter (\<lambda>p. userId p \<noteq> currentUserId) docs))))))"
proof -
  define skills where "skills = skillsToMatchFor currentProfile searchQuery searchSkills"
  define pool where "pool = filter hasSkills (filter (\<lambda>p. userId p \<noteq> currentUserId) docs)"
  have "(0 < matchScore (scoreMentor skills m)) = (matchScore (scoreMentor skills m) \<noteq> 0)" for m
    using scoreMentor_nonneg[of skills m] by linarith
  then have pos: "(\<lambda>m. 0 < matchScore m) \<circ> scoreMentor skills = (\<lambda>m. matchScore m \<noteq> 0) \<circ> scoreMentor skills"
    by (simp add: fun_eq_iff)
  have f: "filter (\<lambda>m. 0 < matchScore m) (map (scoreMentor skills) pool)
         = filter (\<lambda>m. matchScore m \<noteq> 0) (map (scoreMentor skills) pool)"
    by (simp add: filter_map pos)
  have t: "searchMentorsTry getProfile getDocs currentUserId searchQuery searchSkills =
       (if length skills = 0 then Inr []
        else if length pool = 0 then Inr []
        else Inr (take 20 (js_sort compareMentors
                   (filter (\<lambda>m. 0 < matchScore m) (map (scoreMentor skills) pool)))))"
    unfolding searchMentorsTry_def using assms
    by (simp add: Let_def skills_def pool_def)
  have z: "filter (\<lambda>m. matchScore m \<noteq> 0) (map (scoreMentor skills) pool) = []" if "skills = []"
    using that by (simp add: filter_empty_conv scoreMentor_no_skills)
  have "searchMentors getProfile getDocs currentUserId searchQuery searchSkills =
          Inr (take 20 (js_sort compareMentors
                 (filter (\<lambda>m. matchScore m \<noteq> 0) (map (scoreMentor skills) pool))))"
  proof (cases "skills = []")
    case True
    then show ?thesis using z by (simp add: searchMentors_def t js_sort_def)
  next
    case False
    show ?thesis
    proof (cases "pool = []")
      case True
      with False show ?thesis by (simp add: searchMentors_def t js_sort_def)
    next
      case p: False
      with False show ?thesis by (simp add: searchMentors_def t f)
    qed
  qed
  then show ?thesis unfolding pool_def skills_def .
qed

text \<open>
  C8: for every candidate pool, search drops every candidate whose score is 0, sorts
  the remainder descending by score with ties broken by the count of \<open>matchedSkills\<close>
  descending, leaves residual ties in input enumeration order, and truncates the result
  to at most the top 20.  The candidates are the profiles of the pool (every profile but
  the searcher's that offers a skill), each scored against the skills the search
  resolves from its arguments.  \<open>ranked\<close> is the full ordering before truncation: it
  holds exactly the candidates with a non-zero score, each pair in it is ordered by
  score and then by count, and the candidates of any one score and count appear in it
  as they do in the pool.
\<close>

theorem searchMentors_ranking:
  assumes "getProfile currentUserId = Inr (Some currentProfile)" "getDocs = Inr docs"
  shows "\<exists>ranked.
           searchMentors getProfile getDocs currentUserId searchQuery searchSkills = Inr (take 20 ranked)
         \<and> length (take 20 ranked) \<le> 20
         \<and> mset ranked =
             mset (filter (\<lambda>m. matchScore m \<noteq> 0)
                    (map (scoreMentor (skillsToMatchFor currentProfile searchQuery searchSkills))
                       (filter hasSkills (filter (\<lambda>p. userId p \<noteq> currentUserId) docs))))
         \<and> sorted_wrt (\<lambda>a b. matchScore b < matchScore a
               \<or> (matchScore a = matchScore b
                   \<and> length (matchedSkills b) \<le> length (matchedSkills a))) ranked
         \<and> (\<forall>s n. filter (\<lambda>m. matchScore m = s \<and> length (matchedSkills m) = n) ranked =
                   filter (\<lambda>m. matchScore m = s \<and> length (matchedSkills m) = n)
                     (filter (\<lambda>m. matchScore m \<noteq> 0)
                        (map (scoreMentor (skillsToMatchFor currentProfile searchQuery searchSkills))
                           (filter hasSkills (filter (\<lambda>p. userId p \<noteq> currentUserId) docs)))))"
proof -
  define cands where
    "cands = map (scoreMentor (skillsToMatchFor currentProfile searchQuery searchSkills))
               (filter hasSkills (filter (\<lambda>p. userId p \<noteq> currentUserId) docs))"
  define ranked where "ranked = js_sort compareMentors (filter (\<lambda>m. matchScore m \<noteq> 0) cands)"
  have a: "searchMentors getProfile getDocs currentUserId searchQuery searchSkills = Inr (take 20 ranked)"
    using searchMentors_reads_ok[where getProfile = getProfile and currentUserId = currentUserId
      and searchQuery = searchQuery and searchSkills = searchSkills, OF assms]
    by (simp add: ranked_def cands_def)
  have b: "length (take 20 ranked) \<le> 20" by simp
  have c: "mset ranked = mset (filter (\<lambda>m. matchScore m \<noteq> 0) cands)"
    by (simp add: ranked_def mset_js_sort)
  have d: "sorted_wrt (\<lambda>a b. matchScore b < matchScore a
               \<or> (matchScore a = matchScore b
                   \<and> length (matchedSkills b) \<le> length (matchedSkills a))) ranked"
    using sorted_js_sort_mentors[of "filter (\<lambda>m. matchScore m \<noteq> 0) cands"]
    by (simp add: ranked_def compareMentors_le)
  have e: "filter (\<lambda>m. matchScore m = s \<and> length (matchedSkills m) = n) ranked =
           filter (\<lambda>m. matchScore m = s \<and> length (matchedSkills m) = n)
             (filter (\<lambda>m. matchScore m \<noteq> 0) cands)" for s n
    unfolding ranked_def
    by (rule filter_js_sort) (simp add: compareMentors_def)
  show ?thesis
    using a b c d e unfolding cands_def by blast
qed

text \<open>
  The learner \<open>u1\<close> wants python and guitar.  The photographer scores 0 and is dropped,
  the programmer scores 50, the all-rounder 100: the result is the all-rounder, then the
  programmer.
\<close>

lemma two_in_two_rounds_to_100: "js_round (fmul (fdiv 2 2) 100) = 100"
proof -
  have "fmul (fdiv 2 2) 100 = 100"
    unfolding fdiv_def fmul_def using toDouble_one toDouble_hundred by simp
  then show ?thesis by (simp add: js_round_def floor_eq_iff)
qed

lemma exScores:
  "scoreMentor [''python'', ''guitar''] exPhotographer =
     \<lparr>mentor = exPhotographer, matchScore = 0, matchedSkills = []\<rparr>"
  "scoreMentor [''python'', ''guitar''] exProgrammer =
     \<lparr>mentor = exProgrammer, matchScore = 50, matchedSkills = [''Python Programming'']\<rparr>"
  "scoreMentor [''python'', ''guitar''] exAllRounder =
     \<lparr>mentor = exAllRounder, matchScore = 100, matchedSkills = [''python'', ''guitar'']\<rparr>"
proof -
  have m1: "matchLoop [''python'', ''guitar''] [''Photography''] ([], 0) = ([], 0)"
    by code_simp
  have "calculateLocalMatchScore [''python'', ''guitar''] [''Photography''] = (0, [])"
    unfolding calculateLocalMatchScore_def m1
    using percent_zero[of 2] by (simp add: uniqueInOrder_def)
  then show "scoreMentor [''python'', ''guitar''] exPhotographer =
     \<lparr>mentor = exPhotographer, matchScore = 0, matchedSkills = []\<rparr>"
    by (simp add: scoreMentor_def exPhotographer_def Let_def)
  have m2: "matchLoop [''python'', ''guitar''] [''Python Programming''] ([], 0)
              = ([''Python Programming''], 1)"
    by code_simp
  have "calculateLocalMatchScore [''python'', ''guitar''] [''Python Programming'']
          = (50, [''Python Programming''])"
    unfolding calculateLocalMatchScore_def m2
    using one_in_two_rounds_to_50 by (simp add: uniqueInOrder_def)
  then show "scoreMentor [''python'', ''guitar''] exProgrammer =
     \<lparr>mentor = exProgrammer, matchScore = 50, matchedSkills = [''Python Programming'']\<rparr>"
    by (simp add: scoreMentor_def exProgrammer_def Let_def)
  have m3: "matchLoop [''python'', ''guitar''] [''guitar'', ''python''] ([], 0)
              = ([''python'', ''guitar''], 2)"
    by code_simp
  have "calculateLocalMatchScore [''python'', ''guitar''] [''guitar'', ''python'']
          = (100, [''python'', ''guitar''])"
    unfolding calculateLocalMatchScore_def m3
    using two_in_two_rounds_to_100 by (simp add: uniqueInOrder_def)
  then show "scoreMentor [''python'', ''guitar''] exAllRounder =
     \<lparr>mentor = exAllRounder, matchScore = 100, matchedSkills = [''python'', ''guitar'']\<rparr>"
    by (simp add: scoreMentor_def exAllRounder_def Let_def)
qed

lemma exSkills: "skillsToMatchFor exLearner [] None = [''python'', ''guitar'']"
  by (simp add: skillsToMatchFor_def exLearner_def trim_def trimStart_def trimEnd_def)

lemma exSearch:
  "searchMentors exGetProfile (Inr exProfiles) ''u1'' [] None =
     Inr [\<lparr>mentor = exAllRounder, matchScore = 100, matchedSkills = [''python'', ''guitar'']\<rparr>,
          \<lparr>mentor = exProgrammer, matchScore = 50, matchedSkills = [''Python Programming'']\<rparr>]"
proof -
  have p: "filter (\<lambda>p. userId p \<noteq> ''u1'' \<and> hasSkills p) exProfiles
             = [exPhotographer, exProgrammer, exAllRounder]"
    by (simp add: exProfiles_def exLearner_def exPhotographer_def exProgrammer_def
        exAllRounder_def hasSkills_def)
  have l: "skillsToMatchFor exLearner [] None = [''python'', ''guitar'']" by (rule exSkills)
  have "searchMentorsTry exGetProfile (Inr exProfiles) ''u1'' [] None =
     Inr [\<lparr>mentor = exAllRounder, matchScore = 100, matchedSkills = [''python'', ''guitar'']\<rparr>,
          \<lparr>mentor = exProgrammer, matchScore = 50, matchedSkills = [''Python Programming'']\<rparr>]"
    unfolding searchMentorsTry_def
    by (simp add: exGetProfile_def l p Let_def exScores js_sort_def compareMentors_def)
  then show ?thesis by (simp add: searchMentors_def)
qed

theorem searchMentors_ranking_witness:
  "exGetProfile ''u1'' = Inr (Some exLearner)
   \<and> skillsToMatchFor exLearner [] None = [''python'', ''guitar'']
   \<and> searchMentors exGetProfile (Inr exProfiles) ''u1'' [] None =
       Inr [\<lparr>mentor = exAllRounder, matchScore = 100, matchedSkills = [''python'', ''guitar'']\<rparr>,
            \<lparr>mentor = exProgrammer, matchScore = 50, matchedSkills = [''Python Programming'']\<rparr>]
   \<and> (\<exists>ranked.
         searchMentors exGetProfile (Inr exProfiles) ''u1'' [] None = Inr (take 20 ranked)
       \<and> mset ranked =
             mset (filter (\<lambda>m. matchScore m \<noteq> 0)
                    (map (scoreMentor [''python'', ''guitar''])
                       (filter hasSkills (filter (\<lambda>p. userId p \<noteq> ''u1'') exProfiles)))))"
proof -
  have h: "exGetProfile ''u1'' = Inr (Some exLearner)" by (simp add: exGetProfile_def)
  from searchMentors_ranking[where getProfile = exGetProfile and currentUserId = "''u1''"
      and getDocs = "Inr exProfiles" and searchQuery = "[]" and searchSkills = None, OF h refl]
  have "\<exists>ranked.
         searchMentors exGetProfile (Inr exProfiles) ''u1'' [] None = Inr (take 20 ranked)
       \<and> mset ranked =
             mset (filter (\<lambda>m. matchScore m \<noteq> 0)
                    (map (scoreMentor [''python'', ''guitar''])
                       (filter hasSkills (filter (\<lambda>p. userId p \<noteq> ''u1'') exProfiles))))"
    unfolding exSkills by blast
  with h exSkills exSearch show ?thesis by blast
qed

text \<open>
  C10: \<open>searchMentors\<close> never propagates an exception to its caller: whatever the two
  reads of the store answer, it returns a list; if the searcher's profile does not exist,
  or a read raises, or anything inside the \<^verbatim>\<open>try\<close> block raises, the list is empty.
\<close>

theorem searchMentors_never_raises:
  "(\<exists>result. searchMentors getProfile getDocs currentUserId searchQuery searchSkills = Inr result)
   \<and> (getProfile currentUserId = Inr None \<longrightarrow>
        searchMentors getProfile getDocs currentUserId searchQuery searchSkills = Inr [])
   \<and> (\<forall>e. getProfile currentUserId = Inl e \<longrightarrow>
        searchMentors getProfile getDocs currentUserId searchQuery searchSkills = Inr [])
   \<and> (\<forall>e. getDocs = Inl e \<longrightarrow>
        searchMentors getProfile getDocs currentUserId searchQuery searchSkills = Inr [])
   \<and> (\<forall>e. searchMentorsTry getProfile getDocs currentUserId searchQuery searchSkills = Inl e \<longrightarrow>
        searchMentors getProfile getDocs currentUserId searchQuery searchSkills = Inr [])"
proof -
  have a: "\<exists>result. searchMentors getProfile getDocs currentUserId searchQuery searchSkills = Inr result"
    by (simp add: searchMentors_def split: sum.splits)
  have b: "searchMentors getProfile getDocs currentUserId searchQuery searchSkills = Inr []"
    if "getProfile currentUserId = Inr None"
    using that by (simp add: searchMentors_def searchMentorsTry_def)
  have c: "searchMentors getProfile getDocs currentUserId searchQuery searchSkills = Inr []"
    if "getProfile currentUserId = Inl e" for e
    using that by (simp add: searchMentors_def searchMentorsTry_def)
  have d: "searchMentors getProfile getDocs currentUserId searchQuery searchSkills = Inr []"
    if "getDocs = Inl e" for e
    using that
    by (simp add: searchMentors_def searchMentorsTry_def Let_def split: sum.splits option.splits)
  have e: "searchMentors getProfile getDocs currentUserId searchQuery searchSkills = Inr []"
    if "searchMentorsTry getProfile getDocs currentUserId searchQuery searchSkills = Inl e" for e
    using that by (simp add: searchMentors_def)
  show ?thesis using a b c d e by blast
qed

theorem searchMentors_never_raises_witness:
  "searchMentors (\<lambda>u. Inr None) (Inr exProfiles) ''u9'' ''python'' None = Inr []
   \<and> searchMentors (\<lambda>u. Inl TransientStoreError) (Inr exProfiles) ''u1'' ''python'' None = Inr []
   \<and> searchMentors exGetProfile (Inl PermissionDenied) ''u1'' ''python'' None = Inr []
   \<and> searchMentorsTry exGetProfile (Inl PermissionDenied) ''u1'' ''python'' None = Inl PermissionDenied"
proof -
  have a: "searchMentors (\<lambda>u. Inr None) (Inr exProfiles) ''u9'' ''python'' None = Inr []"
    using searchMentors_never_raises[of "\<lambda>u. Inr None" "Inr exProfiles" "''u9''" "''python''" None]
    by simp
  have b: "searchMentors (\<lambda>u. Inl TransientStoreError) (Inr exProfiles) ''u1'' ''python'' None = Inr []"
    using searchMentors_never_raises[of "\<lambda>u. Inl TransientStoreError" "Inr exProfiles" "''u1''" "''python''" None]
    by simp
  have c: "searchMentors exGetProfile (Inl PermissionDenied) ''u1'' ''python'' None = Inr []"
    using searchMentors_never_raises[of exGetProfile "Inl PermissionDenied" "''u1''" "''python''" None]
    by simp
  have "parseQuery ''python'' = [''python'']" by code_simp
  moreover have "trim ''python'' = ''python''" by code_simp
  ultimately have d: "searchMentorsTry exGetProfile (Inl PermissionDenied) ''u1'' ''python'' None = Inl PermissionDenied"
    by (simp add: searchMentorsTry_def skillsToMatchFor_def exGetProfile_def)
  show ?thesis using a b c d by simp
qed


section \<open>Properties of the request lifecycle\<close>

lemma respond_not_found:
  "getDoc (mentorRequests st) requestId = None \<Longrightarrow>
   respondToMentorRequest st requestId accept tUpdate tRoom = (Inl NotFoundError, st)"
  by (simp add: respondToMentorRequest_def)

lemma respond_accept:
  "getDoc (mentorRequests st) requestId = Some request \<Longrightarrow>
   respondToMentorRequest st requestId True tUpdate tRoom =
     (Inr (), st\<lparr>mentorRequests := (mentorRequests st)
                     [requestId := request\<lparr>rq_status := Accepted, rq_respondedAt := Some tUpdate\<rparr>],
                 chatRooms := chatRooms st @
                     [\<lparr>cr_participants = [rq_senderId request, rq_receiverId request],
                       cr_userIds = [rq_senderId request, rq_receiverId request],
                       cr_createdAt = tRoom, cr_lastMessageAt = tRoom\<rparr>]\<rparr>)"
  by (simp add: respondToMentorRequest_def Let_def)

lemma respond_reject:
  "getDoc (mentorRequests st) requestId = Some request \<Longrightarrow>
   respondToMentorRequest st requestId False tUpdate tRoom =
     (Inr (), st\<lparr>mentorRequests := (mentorRequests st)
                     [requestId := request\<lparr>rq_status := Rejected, rq_respondedAt := Some tUpdate\<rparr>]\<rparr>)"
  by (simp add: respondToMentorRequest_def Let_def)

lemma getDoc_update: "getDoc xs i = Some x \<Longrightarrow> getDoc (xs[i := y]) i = Some y"
  by (auto simp: getDoc_def split: if_splits)

lemma getDoc_append: "i < length xs \<Longrightarrow> getDoc (xs @ ys) i = Some (xs ! i)"
  by (simp add: getDoc_def nth_append)

lemma getDoc_new: "getDoc (xs @ [y]) (length xs) = Some y"
  by (simp add: getDoc_def)

text \<open>
  C2 (as stated): no respond call changes the status of an accepted or rejected request,
  and no later \<open>respond(requestId, true)\<close> creates another Channel.  The source reads the
  request only to see that it exists: an accepted request is rejected by a later call,
  and accepting it again adds a second chat room.
\<close>

theorem respond_leaves_terminal_state:
  "getDoc (mentorRequests exAccepted) 0 = Some ((exRequest ''alice'' ''bob'' Accepted)\<lparr>rq_respondedAt := Some 2\<rparr>)
   \<and> rq_status (mentorRequests (snd (respondToMentorRequest exAccepted 0 False 7 8)) ! 0) = Rejected
   \<and> length (chatRooms exAccepted) = 1
   \<and> length (chatRooms (snd (respondToMentorRequest exAccepted 0 True 7 8))) = 2"
  by (simp add: respondToMentorRequest_def getDoc_def exAccepted_def exRequest_def Let_def)

text \<open>
  C2 (amended): respond does not look at the current status.  On every existing
  request, whether pending, accepted or rejected, \<open>respond(requestId, accept)\<close> succeeds,
  sets the status to accepted or rejected as \<open>accept\<close> says and stamps \<open>respondedAt\<close>
  anew, so the status never returns to pending; and every \<open>respond(requestId, true)\<close>
  adds one Channel, every \<open>respond(requestId, false)\<close> none.
\<close>

theorem respond_ignores_current_status:
  assumes "getDoc (mentorRequests st) requestId = Some request"
  shows "\<exists>st'. respondToMentorRequest st requestId accept tUpdate tRoom = (Inr (), st')
          \<and> getDoc (mentorRequests st') requestId =
              Some (request\<lparr>rq_status := (if accept then Accepted else Rejected),
                            rq_respondedAt := Some tUpdate\<rparr>)
          \<and> rq_status (mentorRequests st' ! requestId) \<noteq> Pending
          \<and> length (chatRooms st') = length (chatRooms st) + (if accept then 1 else 0)"
proof (cases accept)
  case True
  from assms have "requestId < length (mentorRequests st)"
    by (simp add: getDoc_def split: if_splits)
  then show ?thesis
    using True respond_accept[OF assms, of tUpdate tRoom] getDoc_update[OF assms]
    by simp
next
  case False
  from assms have "requestId < length (mentorRequests st)"
    by (simp add: getDoc_def split: if_splits)
  then show ?thesis
    using False respond_reject[OF assms, of tUpdate tRoom] getDoc_update[OF assms]
    by simp
qed

theorem respond_ignores_current_status_witness:
  "getDoc (mentorRequests exAccepted) 0 = Some ((exRequest ''alice'' ''bob'' Accepted)\<lparr>rq_respondedAt := Some 2\<rparr>)
   \<and> (\<exists>st'. respondToMentorRequest exAccepted 0 False 7 8 = (Inr (), st')
          \<and> getDoc (mentorRequests st') 0 =
              Some ((exRequest ''alice'' ''bob'' Rejected)\<lparr>rq_respondedAt := Some 7\<rparr>)
          \<and> length (chatRooms st') = 1)
   \<and> (\<exists>st'. respondToMentorRequest exAccepted 0 True 7 8 = (Inr (), st')
          \<and> getDoc (mentorRequests st') 0 =
              Some ((exRequest ''alice'' ''bob'' Accepted)\<lparr>rq_respondedAt := Some 7\<rparr>)
          \<and> length (chatRooms st') = 2)"
proof -
  have h: "getDoc (mentorRequests exAccepted) 0 =
            Some ((exRequest ''alice'' ''bob'' Accepted)\<lparr>rq_respondedAt := Some 2\<rparr>)"
    by (simp add: getDoc_def exAccepted_def)
  have l: "length (chatRooms exAccepted) = 1" by (simp add: exAccepted_def)
  from respond_ignores_current_status[OF h, of False 7 8] l
  have a: "\<exists>st'. respondToMentorRequest exAccepted 0 False 7 8 = (Inr (), st')
          \<and> getDoc (mentorRequests st') 0 =
              Some ((exRequest ''alice'' ''bob'' Rejected)\<lparr>rq_respondedAt := Some 7\<rparr>)
          \<and> length (chatRooms st') = 1"
    by (auto simp: exRequest_def)
  from respond_ignores_current_status[OF h, of True 7 8] l
  have b: "\<exists>st'. respondToMentorRequest exAccepted 0 True 7 8 = (Inr (), st')
          \<and> getDoc (mentorRequests st') 0 =
              Some ((exRequest ''alice'' ''bob'' Accepted)\<lparr>rq_respondedAt := Some 7\<rparr>)
          \<and> length (chatRooms st') = 2"
    by (auto simp: exRequest_def)
  from h a b show ?thesis by blast
qed

text \<open>
  C3: for every pending request with sender \<open>A\<close> and receiver \<open>B\<close>, \<open>respond(req, true)\<close>
  sets the status to accepted, stamps \<open>respondedAt\<close>, and creates exactly one Channel
  whose participant set is \<open>{A, B}\<close> and whose \<open>lastMessageAt\<close> (like its \<open>createdAt\<close>) is
  the server time of that creation; \<open>respond(req, false)\<close> sets the status to rejected
  and creates no Channel; respond on a request id that does not exist fails with
  \<open>NotFoundError\<close> and writes nothing.
\<close>

theorem respond_to_pending_request:
  "(getDoc (mentorRequests st) requestId = Some request \<and> rq_status request = Pending
      \<and> rq_senderId request = A \<and> rq_receiverId request = B \<longrightarrow>
      (\<exists>st' room.
          respondToMentorRequest st requestId True tUpdate tRoom = (Inr (), st')
        \<and> getDoc (mentorRequests st') requestId =
            Some (request\<lparr>rq_status := Accepted, rq_respondedAt := Some tUpdate\<rparr>)
        \<and> chatRooms st' = chatRooms st @ [room]
        \<and> set (cr_participants room) = {A, B}
        \<and> cr_lastMessageAt room = tRoom \<and> cr_createdAt room = tRoom)
    \<and> (\<exists>st'.
          respondToMentorRequest st requestId False tUpdate tRoom = (Inr (), st')
        \<and> getDoc (mentorRequests st') requestId =
            Some (request\<lparr>rq_status := Rejected, rq_respondedAt := Some tUpdate\<rparr>)
        \<and> chatRooms st' = chatRooms st))
   \<and> (getDoc (mentorRequests st) requestId = None \<longrightarrow>
        respondToMentorRequest st requestId accept tUpdate tRoom = (Inl NotFoundError, st))"
proof -
  have a: "\<exists>st' room.
          respondToMentorRequest st requestId True tUpdate tRoom = (Inr (), st')
        \<and> getDoc (mentorRequests st') requestId =
            Some (request\<lparr>rq_status := Accepted, rq_respondedAt := Some tUpdate\<rparr>)
        \<and> chatRooms st' = chatRooms st @ [room]
        \<and> set (cr_participants room) = {A, B}
        \<and> cr_lastMessageAt room = tRoom \<and> cr_createdAt room = tRoom"
    if h: "getDoc (mentorRequests st) requestId = Some request"
      and "rq_senderId request = A" "rq_receiverId request = B"
    using respond_accept[OF h, of tUpdate tRoom] getDoc_update[OF h] that(2,3) by simp
  have b: "\<exists>st'.
          respondToMentorRequest st requestId False tUpdate tRoom = (Inr (), st')
        \<and> getDoc (mentorRequests st') requestId =
            Some (request\<lparr>rq_status := Rejected, rq_respondedAt := Some tUpdate\<rparr>)
        \<and> chatRooms st' = chatRooms st"
    if h: "getDoc (mentorRequests st) requestId = Some request"
    using respond_reject[OF h, of tUpdate tRoom] getDoc_update[OF h] by simp
  have c: "respondToMentorRequest st requestId accept tUpdate tRoom = (Inl NotFoundError, st)"
    if "getDoc (mentorRequests st) requestId = None"
    using that by (rule respond_not_found)
  show ?thesis using a b c by blast
qed

theorem respond_to_pending_request_witness:
  "getDoc (mentorRequests exPending) 0 = Some (exRequest ''alice'' ''bob'' Pending)
   \<and> getDoc (mentorRequests exPending) 5 = None
   \<and> respondToMentorRequest exPending 5 True 7 8 = (Inl NotFoundError, exPending)
   \<and> (\<exists>st' room.
          respondToMentorRequest exPending 0 True 7 8 = (Inr (), st')
        \<and> getDoc (mentorRequests st') 0 =
            Some ((exRequest ''alice'' ''bob'' Accepted)\<lparr>rq_respondedAt := Some 7\<rparr>)
        \<and> chatRooms st' = [room]
        \<and> set (cr_participants room) = {''alice'', ''bob''}
        \<and> cr_lastMessageAt room = 8)
   \<and> (\<exists>st'.
          respondToMentorRequest exPending 0 False 7 8 = (Inr (), st')
        \<and> getDoc (mentorRequests st') 0 =
            Some ((exRequest ''alice'' ''bob'' Rejected)\<lparr>rq_respondedAt := Some 7\<rparr>)
        \<and> chatRooms st' = [])"
proof -
  have h: "getDoc (mentorRequests exPending) 0 = Some (exRequest ''alice'' ''bob'' Pending)"
    by (simp add: getDoc_def exPending_def)
  have n: "getDoc (mentorRequests exPending) 5 = None"
    by (simp add: getDoc_def exPending_def)
  have f: "rq_status (exRequest ''alice'' ''bob'' Pending) = Pending"
    "rq_senderId (exRequest ''alice'' ''bob'' Pending) = ''alice''"
    "rq_receiverId (exRequest ''alice'' ''bob'' Pending) = ''bob''"
    "chatRooms exPending = []"
    by (simp_all add: exRequest_def exPending_def)
  have u: "(exRequest ''alice'' ''bob'' Pending)\<lparr>rq_status := s, rq_respondedAt := Some 7\<rparr>
            = (exRequest ''alice'' ''bob'' s)\<lparr>rq_respondedAt := Some 7\<rparr>" for s
    by (simp add: exRequest_def)
  from respond_to_pending_request[of exPending 5 "exRequest ''alice'' ''bob'' Pending" "''alice''" "''bob''" 7 8 True] n
  have c: "respondToMentorRequest exPending 5 True 7 8 = (Inl NotFoundError, exPending)"
    by blast
  from respond_to_pending_request[of exPending 0 "exRequest ''alice'' ''bob'' Pending" "''alice''" "''bob''" 7 8 True] h f
  have ab: "(\<exists>st' room.
          respondToMentorRequest exPending 0 True 7 8 = (Inr (), st')
        \<and> getDoc (mentorRequests st') 0 =
            Some ((exRequest ''alice'' ''bob'' Accepted)\<lparr>rq_respondedAt := Some 7\<rparr>)
        \<and> chatRooms st' = [room]
        \<and> set (cr_participants room) = {''alice'', ''bob''}
        \<and> cr_lastMessageAt room = 8)
   \<and> (\<exists>st'.
          respondToMentorRequest exPending 0 False 7 8 = (Inr (), st')
        \<and> getDoc (mentorRequests st') 0 =
            Some ((exRequest ''alice'' ''bob'' Rejected)\<lparr>rq_respondedAt := Some 7\<rparr>)
        \<and> chatRooms st' = [])"
    unfolding u by auto
  from h n c ab show ?thesis by blast
qed


text \<open>
  The duplicate check looks at one direction only: a create for an ordered pair that has
  no pending or accepted request of its own succeeds, whatever requests exist for the
  reverse pair.
\<close>

lemma sendMentorRequest_no_active:
  assumes "msg = [] \<or> moderateContent msg ''message'' = Inr (True, reason)"
    and "\<forall>r\<in>set (mentorRequests st).
           rq_senderId r = senderId \<and> rq_receiverId r = receiverId \<longrightarrow> rq_status r = Rejected"
  shows "sendMentorRequest moderateContent st senderId receiverId msg now =
           (Inr (length (mentorRequests st)),
            st\<lparr>mentorRequests := mentorRequests st @
                  [\<lparr>rq_senderId = senderId, rq_receiverId = receiverId, rq_message = msg,
                    rq_status = Pending, rq_createdAt = now, rq_respondedAt = None\<rparr>]\<rparr>)"
proof -
  let ?ex = "filter (\<lambda>r. rq_senderId r = senderId \<and> rq_receiverId r = receiverId) (mentorRequests st)"
  have "\<not> (?ex \<noteq> [] \<and> (rq_status (hd ?ex) = Pending \<or> rq_status (hd ?ex) = Accepted))"
  proof
    assume a: "?ex \<noteq> [] \<and> (rq_status (hd ?ex) = Pending \<or> rq_status (hd ?ex) = Accepted)"
    then obtain first others where e: "?ex = first # others" by (cases ?ex) auto
    from filter_eq_ConsD[OF e] have "first \<in> set (mentorRequests st)"
      and "rq_senderId first = senderId \<and> rq_receiverId first = receiverId"
      by auto
    with assms(2) have "rq_status first = Rejected" by blast
    with a e show False by simp
  qed
  then show ?thesis
    using assms(1) by (auto simp: sendMentorRequest_def Let_def)
qed

text \<open>
  The example of the specification: with alice's request to bob pending, a second
  create from alice to bob is a duplicate, and a create from bob to alice succeeds.
\<close>

lemma sendMentorRequest_example:
  "sendMentorRequest safeModerator exPending ''alice'' ''bob'' ''hi'' 9 = (Inl DuplicateRequestError, exPending)
   \<and> fst (sendMentorRequest safeModerator exPending ''bob'' ''alice'' ''hi'' 9) = Inr 1"
  by (simp add: sendMentorRequest_def exPending_def exRequest_def safeModerator_def Let_def)

lemma exAskedAgain_requests:
  "mentorRequests exAskedAgain =
     [\<lparr>rq_senderId = ''alice'', rq_receiverId = ''bob'', rq_message = [], rq_status = Rejected,
       rq_createdAt = 1, rq_respondedAt = Some 2\<rparr>,
      \<lparr>rq_senderId = ''alice'', rq_receiverId = ''bob'', rq_message = [], rq_status = Pending,
       rq_createdAt = 3, rq_respondedAt = None\<rparr>]"
  by (simp add: exAskedAgain_def exDeclined_def exAsked_def emptyStore_def sendMentorRequest_def
      respondToMentorRequest_def getDoc_def Let_def)

text \<open>
  C4: create fails with \<open>DuplicateRequestError\<close> whenever some existing request for the
  exact ordered pair is pending or accepted (the reverse direction is not deduplicated).
  The source reads only the first document the query returns,
  \<^verbatim>\<open>existingDocs.docs[0]\<close>.  After alice has asked bob, bob has declined and alice has
  asked again, the store holds a rejected and a pending request from alice to bob; a
  further create from alice to bob finds the rejected one first, does not fail, and
  leaves two pending requests for the same ordered pair.
\<close>

theorem sendMentorRequest_duplicate_slips_through:
  "map rq_senderId (mentorRequests exAskedAgain) = [''alice'', ''alice'']
   \<and> map rq_receiverId (mentorRequests exAskedAgain) = [''bob'', ''bob'']
   \<and> map rq_status (mentorRequests exAskedAgain) = [Rejected, Pending]
   \<and> fst (sendMentorRequest safeModerator exAskedAgain ''alice'' ''bob'' [] 4) = Inr 2
   \<and> map rq_status (mentorRequests (snd (sendMentorRequest safeModerator exAskedAgain ''alice'' ''bob'' [] 4)))
       = [Rejected, Pending, Pending]"
  by (simp add: sendMentorRequest_def exAskedAgain_requests Let_def)

section \<open>Properties of the channel\<close>

lemma sendMessage_moderation_has_no_effect:
  "sendMessage moderateContent st chatRoomId senderId text tMessage tRoom =
   sendMessage moderateContent' st chatRoomId senderId text tMessage tRoom"
  by (simp add: sendMessage_def)

lemma sendMessage_messages:
  "messages (snd (sendMessage moderateContent st chatRoomId senderId text tMessage tRoom)) =
   messages st @ [\<lparr>msg_chatRoomId = chatRoomId, msg_senderId = senderId, msg_text = text,
                    msg_createdAt = tMessage\<rparr>]"
  by (simp add: sendMessage_def Let_def split: option.splits)

lemma sendMessage_chatReports:
  "chatReports (snd (sendMessage moderateContent st chatRoomId senderId text tMessage tRoom)) =
   chatReports st"
  by (simp add: sendMessage_def Let_def split: option.splits)

text \<open>
  C1: if the moderation collaborator returns unsafe for the text, \<open>sendMessage\<close> fails
  with \<open>ContentRejected\<close> and no Message is appended.  The source raises the rejection
  inside the very \<^verbatim>\<open>try\<close> block whose \<^verbatim>\<open>catch\<close> allows the message, so the call
  succeeds and the message is stored: evaluated on the chat room of alice and bob with
  a moderator that answers unsafe.
\<close>

theorem sendMessage_unsafe_is_stored:
  "moderationTry unsafeModerator ''bad words'' = Inl (ContentRejected ''abusive'')
   \<and> sendMessage unsafeModerator exAccepted 0 ''alice'' ''bad words'' 5 6 =
       (Inr (),
        exAccepted\<lparr>messages := [\<lparr>msg_chatRoomId = 0, msg_senderId = ''alice'',
                                 msg_text = ''bad words'', msg_createdAt = 5\<rparr>],
                   chatRooms := [exRoom\<lparr>cr_lastMessageAt := 6\<rparr>]\<rparr>)"
  by (simp add: sendMessage_def moderationTry_def unsafeModerator_def exAccepted_def getDoc_def Let_def)

section \<open>Properties of report capture\<close>

lemma map_snd_withIds: "map snd (withIds xs) = xs"
  by (simp add: withIds_def)

lemma length_getMessages:
  "length (getMessages st c) = length (filter (\<lambda>m. msg_chatRoomId m = c) (messages st))"
proof -
  have e: "(\<lambda>(i, m). msg_chatRoomId m = c) = (\<lambda>m. msg_chatRoomId m = c) \<circ> snd"
    by (auto simp: fun_eq_iff)
  have "map snd (filter (\<lambda>(i, m). msg_chatRoomId m = c) (withIds (messages st)))
        = map snd (filter ((\<lambda>m. msg_chatRoomId m = c) \<circ> snd) (withIds (messages st)))"
    by (simp only: e)
  also have "\<dots> = filter (\<lambda>m. msg_chatRoomId m = c) (map snd (withIds (messages st)))"
    by (simp only: filter_map)
  also have "\<dots> = filter (\<lambda>m. msg_chatRoomId m = c) (messages st)"
    by (simp only: map_snd_withIds)
  finally have "length (filter (\<lambda>(i, m). msg_chatRoomId m = c) (withIds (messages st)))
        = length (filter (\<lambda>m. msg_chatRoomId m = c) (messages st))"
    by (metis length_map)
  then show ?thesis by (simp add: getMessages_def)
qed

lemma newest_in_getMessages:
  assumes "messages st' = messages st @ [m]" "msg_chatRoomId m = c"
  shows "(length (messages st), m) \<in> set (getMessages st' c)"
proof -
  have "(length (messages st), m) \<in> set (withIds (messages st'))"
    unfolding withIds_def assms(1) by (simp add: in_set_zip nth_append)
  then show ?thesis using assms(2) by (simp add: getMessages_def)
qed

lemma perform_keeps_reports: "\<exists>more. chatReports (perform st a) = chatReports st @ more"
proof (cases a)
  case (SendMessage md c s t t1 t2)
  then show ?thesis by (simp add: sendMessage_chatReports)
next
  case (SendMentorRequest md a b m t)
  then show ?thesis
    by (auto simp: sendMentorRequest_def Let_def split: sum.splits prod.splits)
next
  case (RespondToMentorRequest r acc t1 t2)
  then show ?thesis
    by (auto simp: respondToMentorRequest_def Let_def split: option.splits)
next
  case (Capture c r why t)
  then show ?thesis
    by (auto simp: capture_def Let_def split: option.splits)
qed

lemma performAll_keeps_reports: "\<exists>more. chatReports (performAll st acts) = chatReports st @ more"
proof (induction acts arbitrary: st)
  case Nil
  then show ?case by (simp add: performAll_def)
next
  case (Cons a acts)
  from perform_keeps_reports[of st a] obtain m1 where
    a: "chatReports (perform st a) = chatReports st @ m1" by blast
  from Cons[of "perform st a"] obtain m2 where
    b: "chatReports (performAll (perform st a) acts) = chatReports (perform st a) @ m2" by blast
  have "performAll st (a # acts) = performAll (perform st a) acts"
    by (simp add: performAll_def)
  with a b show ?case by simp
qed

lemma capture_result:
  assumes "capture st channelId reporterId reason now = (Inr reportId, st')"
  shows "\<exists>room. getDoc (chatRooms st) channelId = Some room \<and> reason \<noteq> []
        \<and> reportId = length (chatReports st)
        \<and> st' = st\<lparr>chatReports := chatReports st @
            [\<lparr>rp_channelId = channelId, rp_reporterId = reporterId, rp_reason = reason,
              rp_participants = cr_participants room,
              rp_messages = sort_key rm_createdAt
                 (map snapshotOf (filter (\<lambda>m. msg_chatRoomId m = channelId) (messages st))),
              rp_status = ReportPending, rp_createdAt = now\<rparr>]\<rparr>"
  using assms by (auto simp: capture_def Let_def split: if_splits option.splits)

text \<open>
  C5: a ChatReport's messages snapshot is frozen at capture time.  Capture stores the
  messages the channel holds at that instant, reduced to sender, text and timestamp and
  sorted ascending by timestamp; whatever is done afterwards (sending messages, creating
  and answering requests, further captures) leaves the stored report as it is; and a
  message sent to the channel after the capture is returned by \<open>list(channelId)\<close>, which
  is then one longer than the snapshot, while the report is unchanged.
\<close>

theorem capture_snapshot_is_frozen:
  assumes "capture st channelId reporterId reason now = (Inr reportId, st')"
  shows "\<exists>report.
           getDoc (chatReports st') reportId = Some report
         \<and> rp_messages report =
             sort_key rm_createdAt
               (map snapshotOf (filter (\<lambda>m. msg_chatRoomId m = channelId) (messages st)))
         \<and> sorted (map rm_createdAt (rp_messages report))
         \<and> mset (rp_messages report) =
             mset (map snapshotOf (filter (\<lambda>m. msg_chatRoomId m = channelId) (messages st)))
         \<and> length (rp_messages report) = length (getMessages st' channelId)
         \<and> (\<forall>acts. getDoc (chatReports (performAll st' acts)) reportId = Some report)
         \<and> (\<forall>moderateContent senderId text tMessage tRoom.
              getDoc (chatReports (snd (sendMessage moderateContent st' channelId senderId text tMessage tRoom)))
                reportId = Some report
            \<and> (length (messages st'),
                 \<lparr>msg_chatRoomId = channelId, msg_senderId = senderId, msg_text = text,
                  msg_createdAt = tMessage\<rparr>)
               \<in> set (getMessages (snd (sendMessage moderateContent st' channelId senderId text tMessage tRoom))
                       channelId)
            \<and> length (getMessages (snd (sendMessage moderateContent st' channelId senderId text tMessage tRoom))
                       channelId)
               = Suc (length (rp_messages report)))"
proof -
  from capture_result[OF assms] obtain room :: chatRoom where
    id: "reportId = length (chatReports st)" and
    st': "st' = st\<lparr>chatReports := chatReports st @
            [\<lparr>rp_channelId = channelId, rp_reporterId = reporterId, rp_reason = reason,
              rp_participants = cr_participants room,
              rp_messages = sort_key rm_createdAt
                 (map snapshotOf (filter (\<lambda>m. msg_chatRoomId m = channelId) (messages st))),
              rp_status = ReportPending, rp_createdAt = now\<rparr>]\<rparr>"
    by blast
  define report where "report =
     \<lparr>rp_channelId = channelId, rp_reporterId = reporterId, rp_reason = reason,
      rp_participants = cr_participants room,
      rp_messages = sort_key rm_createdAt
         (map snapshotOf (filter (\<lambda>m. msg_chatRoomId m = channelId) (messages st))),
      rp_status = ReportPending, rp_createdAt = now\<rparr>"
  have reports: "chatReports st' = chatReports st @ [report]"
    by (simp add: st' report_def)
  have msgs: "messages st' = messages st"
    by (simp add: st')
  have a: "getDoc (chatReports st') reportId = Some report"
    by (simp add: reports id getDoc_new)
  have b: "rp_messages report =
             sort_key rm_createdAt
               (map snapshotOf (filter (\<lambda>m. msg_chatRoomId m = channelId) (messages st)))"
    by (simp add: report_def)
  have c: "sorted (map rm_createdAt (rp_messages report))"
    by (simp add: b)
  have d: "mset (rp_messages report) =
             mset (map snapshotOf (filter (\<lambda>m. msg_chatRoomId m = channelId) (messages st)))"
    by (simp add: b)
  have e: "length (rp_messages report) = length (getMessages st' channelId)"
    by (simp add: b length_getMessages msgs)
  have lt: "reportId < length (chatReports st')"
    by (simp add: reports id)
  have keep: "getDoc (xs) reportId = Some report" if "xs = chatReports st' @ more" for xs more
    using that lt a by (simp add: getDoc_def nth_append)
  have f: "getDoc (chatReports (performAll st' acts)) reportId = Some report" for acts
    using performAll_keeps_reports[of st' acts] keep by blast
  have g: "getDoc (chatReports (snd (sendMessage md st' channelId s t t1 t2))) reportId = Some report"
    for md s t t1 t2
    by (simp add: sendMessage_chatReports a)
  have h: "(length (messages st'),
              \<lparr>msg_chatRoomId = channelId, msg_senderId = s, msg_text = t, msg_createdAt = t1\<rparr>)
            \<in> set (getMessages (snd (sendMessage md st' channelId s t t1 t2)) channelId)"
    for md s t t1 t2
    by (rule newest_in_getMessages) (simp_all add: sendMessage_messages)
  have i: "length (getMessages (snd (sendMessage md st' channelId s t t1 t2)) channelId)
            = Suc (length (rp_messages report))"
    for md s t t1 t2
    by (simp add: length_getMessages sendMessage_messages msgs b)
  show ?thesis
    using a b c d e f g h i by blast
qed

theorem capture_snapshot_is_frozen_witness:
  "capture exChat 0 ''alice'' ''spam'' 5 =
     (Inr 0, exChat\<lparr>chatReports :=
        [\<lparr>rp_channelId = 0, rp_reporterId = ''alice'', rp_reason = ''spam'',
          rp_participants = [''alice'', ''bob''],
          rp_messages = [\<lparr>rm_senderId = ''alice'', rm_text = ''hi'', rm_createdAt = 3\<rparr>,
                         \<lparr>rm_senderId = ''bob'', rm_text = ''hello'', rm_createdAt = 4\<rparr>],
          rp_status = ReportPending, rp_createdAt = 5\<rparr>]\<rparr>)
   \<and> (\<exists>report.
         getDoc (chatReports (snd (capture exChat 0 ''alice'' ''spam'' 5))) 0 = Some report
       \<and> length (rp_messages report) = 2
       \<and> getDoc (chatReports (snd (sendMessage safeModerator (snd (capture exChat 0 ''alice'' ''spam'' 5))
                                      0 ''bob'' ''later'' 6 6))) 0 = Some report
       \<and> length (getMessages (snd (sendMessage safeModerator (snd (capture exChat 0 ''alice'' ''spam'' 5))
                                      0 ''bob'' ''later'' 6 6)) 0) = 3)"
proof -
  let ?st' = "exChat\<lparr>chatReports :=
        [\<lparr>rp_channelId = 0, rp_reporterId = ''alice'', rp_reason = ''spam'',
          rp_participants = [''alice'', ''bob''],
          rp_messages = [\<lparr>rm_senderId = ''alice'', rm_text = ''hi'', rm_createdAt = 3\<rparr>,
                         \<lparr>rm_senderId = ''bob'', rm_text = ''hello'', rm_createdAt = 4\<rparr>],
          rp_status = ReportPending, rp_createdAt = 5\<rparr>]\<rparr>"
  have c: "capture exChat 0 ''alice'' ''spam'' 5 = (Inr 0, ?st')"
    by (simp add: capture_def exChat_def exRoom_def exMessage_def getDoc_def snapshotOf_def Let_def)
  from capture_snapshot_is_frozen[OF c] obtain report where
    r: "getDoc (chatReports ?st') 0 = Some report"
       "getDoc (chatReports (snd (sendMessage safeModerator ?st' 0 ''bob'' ''later'' 6 6))) 0 = Some report"
       "length (getMessages (snd (sendMessage safeModerator ?st' 0 ''bob'' ''later'' 6 6)) 0)
          = Suc (length (rp_messages report))"
    by blast
  from r(1) have "length (rp_messages report) = 2"
    by (auto simp: getDoc_def)
  with r c show ?thesis by simp
qed


end
